theory Spec2Isabelle
  imports Complex_Main
begin

section \<open>JavaScript strings\<close>

text \<open>
  A JavaScript string is a sequence of UTF-16 code units; \<open>length\<close>, \<open>trim\<close>, \<open>split\<close> and the
  regular expressions of the generator all work on code units.  A code unit is modelled as an
  integer and a string as a list of them, so that the bullet character U+2022 and the
  Unicode white space outside Latin-1 are part of the model.  \<open>js\<close> turns an Isabelle string
  literal into such a string.
\<close>

type_synonym jschar = int

type_synonym jsstring = "jschar list"

definition js :: "string \<Rightarrow> jsstring" where
  "js s = map of_char s"

text \<open>The character classes of ECMAScript: LineTerminator, \<open>\s\<close> (WhiteSpace and
  LineTerminator, which is also what \<open>trim\<close> strips), \<open>\w\<close> and \<open>\d\<close>.\<close>

definition is_line_terminator :: "jschar \<Rightarrow> bool" where
  "is_line_terminator c = (c = 10 \<or> c = 13 \<or> c = 8232 \<or> c = 8233)"

definition is_ws :: "jschar \<Rightarrow> bool" where
  "is_ws c = (c = 9 \<or> c = 10 \<or> c = 11 \<or> c = 12 \<or> c = 13 \<or> c = 32 \<or> c = 160 \<or> c = 5760
     \<or> (8192 \<le> c \<and> c \<le> 8202) \<or> c = 8232 \<or> c = 8233 \<or> c = 8239 \<or> c = 8287
     \<or> c = 12288 \<or> c = 65279)"

definition is_word :: "jschar \<Rightarrow> bool" where
  "is_word c = ((48 \<le> c \<and> c \<le> 57) \<or> (65 \<le> c \<and> c \<le> 90) \<or> c = 95 \<or> (97 \<le> c \<and> c \<le> 122))"

definition is_digit :: "jschar \<Rightarrow> bool" where
  "is_digit c = (48 \<le> c \<and> c \<le> 57)"

definition trim :: "jsstring \<Rightarrow> jsstring" where
  "trim s = rev (dropWhile is_ws (rev (dropWhile is_ws s)))"

definition startsWith :: "jsstring \<Rightarrow> jsstring \<Rightarrow> bool" where
  "startsWith s p = (take (length p) s = p)"

definition endsWith :: "jsstring \<Rightarrow> jsstring \<Rightarrow> bool" where
  "endsWith s p = (length p \<le> length s \<and> drop (length s - length p) s = p)"

text \<open>\<open>indexOf s p\<close> is the position of the first occurrence of \<open>p\<close> in \<open>s\<close>.\<close>

fun indexOf :: "jsstring \<Rightarrow> jsstring \<Rightarrow> nat option" where
  "indexOf [] p = (if p = [] then Some 0 else None)"
| "indexOf (c # cs) p =
     (if startsWith (c # cs) p then Some 0 else map_option Suc (indexOf cs p))"

definition js_includes :: "jsstring \<Rightarrow> jsstring \<Rightarrow> bool" where
  "js_includes s p = (indexOf s p \<noteq> None)"

text \<open>\<open>s.split('\n')\<close> and \<open>a.join('\n')\<close>; the separator is one code unit.\<close>

fun split_char :: "jschar \<Rightarrow> jsstring \<Rightarrow> jsstring list" where
  "split_char d [] = [[]]"
| "split_char d (c # cs) =
     (if c = d then [] # split_char d cs
      else (let r = split_char d cs in (c # hd r) # tl r))"

fun join_char :: "jschar \<Rightarrow> jsstring list \<Rightarrow> jsstring" where
  "join_char d [] = []"
| "join_char d [l] = l"
| "join_char d (l # ls) = l @ d # join_char d ls"

text \<open>\<open>toLowerCase\<close> on a string of \<open>\w\<close> characters: only A to Z change.\<close>

definition toLowerCase_word :: "jsstring \<Rightarrow> jsstring" where
  "toLowerCase_word s = map (\<lambda>c. if 65 \<le> c \<and> c \<le> 90 then c + 32 else c) s"

text \<open>The decimal digits of a number, as template literals print it.\<close>

fun decimal :: "nat \<Rightarrow> jsstring" where
  "decimal n = (if n < 10 then [48 + int n] else decimal (n div 10) @ [48 + int (n mod 10)])"

declare decimal.simps [simp del]

section \<open>SlideSplitter: parseMarkdown\<close>

record slide_record =
  s_type :: jsstring
  s_title :: jsstring
  s_content :: jsstring

text \<open>
  \<open>body.split(/^## /m)\<close>.  With the \<open>m\<close> flag \<open>^\<close> holds at the start of the input and after
  every line terminator.  The flag \<open>bol\<close> says whether the current position is such a place.
  A match consumes the three code units \<open>## \<close> and ends the current chunk; the position after
  a match follows a space, so it is not a line start.
\<close>

fun split_headers :: "bool \<Rightarrow> jsstring \<Rightarrow> jsstring list" where
  "split_headers bol [] = [[]]"
| "split_headers bol (c # cs) =
     (if bol \<and> c = 35 \<and> take 2 cs = [35, 32] then [] # split_headers False (drop 2 cs)
      else (let r = split_headers (is_line_terminator c) cs in (c # hd r) # tl r))"

text \<open>
  \<open>headerLine.match(/^\[(\w+)\]\s*(.*)$/)\<close>, without the \<open>m\<close> flag: an opening bracket, one or
  more word characters, a closing bracket, white space, and the rest of the line, which \<open>.\<close>
  matches only when it holds no line terminator.  The greedy \<open>\w+\<close> has to stop at the
  bracket, and giving back white space from \<open>\s*\<close> only makes the rest longer, so the match
  is decided by the longest runs.  The result is the pair of the two groups.
\<close>

definition header_match :: "jsstring \<Rightarrow> (jsstring \<times> jsstring) option" where
  "header_match h =
     (case h of
        [] \<Rightarrow> None
      | c # r \<Rightarrow>
          if c \<noteq> 91 then None
          else (let w = takeWhile is_word r; r1 = dropWhile is_word r in
                if w = [] then None
                else (case r1 of
                        [] \<Rightarrow> None
                      | d # r2 \<Rightarrow>
                          if d \<noteq> 93 then None
                          else (let t = dropWhile is_ws r2 in
                                if list_ex is_line_terminator t then None else Some (w, t)))))"

text \<open>The body of the loop of \<open>parseMarkdown\<close>: one section becomes one record.\<close>

definition section_record :: "jsstring \<Rightarrow> slide_record" where
  "section_record sec =
     (let lines = split_char 10 (trim sec);
          headerLine = hd lines;
          slideContent = trim (join_char 10 (tl lines))
      in (case header_match headerLine of
            Some (w, t) \<Rightarrow> \<lparr>s_type = toLowerCase_word w, s_title = t, s_content = slideContent\<rparr>
          | None \<Rightarrow> \<lparr>s_type = js ''content'', s_title = headerLine, s_content = slideContent\<rparr>))"

definition sections :: "jsstring \<Rightarrow> jsstring list" where
  "sections body = filter (\<lambda>s. trim s \<noteq> []) (split_headers True body)"

definition parse_slides :: "jsstring \<Rightarrow> slide_record list" where
  "parse_slides body = map section_record (sections body)"

text \<open>
  \<open>parseMarkdown\<close> itself.  The frontmatter parser \<open>matter\<close> is the library gray-matter; it is
  a parameter that returns the frontmatter and the body.
\<close>

definition parseMarkdown :: "(jsstring \<Rightarrow> 'fm \<times> jsstring) \<Rightarrow> jsstring \<Rightarrow> 'fm \<times> slide_record list" where
  "parseMarkdown matter content = (case matter content of (fm, body) \<Rightarrow> (fm, parse_slides body))"

text \<open>
  The number of slide-header lines of a body, counted the way the specification says it:
  the lines of the text that begin with the marker.  A line ends at a line terminator.
\<close>

fun split_lines :: "jsstring \<Rightarrow> jsstring list" where
  "split_lines [] = [[]]"
| "split_lines (c # cs) =
     (if is_line_terminator c then [] # split_lines cs
      else (let r = split_lines cs in (c # hd r) # tl r))"

definition header_count :: "jsstring \<Rightarrow> nat" where
  "header_count body = length (filter (\<lambda>l. startsWith l (js ''## '')) (split_lines body))"


section \<open>BulletParser: parseBullets\<close>

record bullet =
  b_text :: jsstring
  b_level :: nat

definition is_bullet_char :: "jschar \<Rightarrow> bool" where
  "is_bullet_char c = (c = 45 \<or> c = 42 \<or> c = 8226)"

text \<open>
  \<open>line.match(/^(\s*)[-*\<bullet>]\s+(.+)$/)\<close>; the result is the pair of the two groups.  The
  indentation is the longest run of white space, since a bullet character is not white
  space.  \<open>\s+\<close> is greedy; when text follows the white space after the bullet character it
  keeps the whole run, and the text must hold no line terminator for \<open>.+\<close> to reach the end.
  When nothing follows, \<open>\s+\<close> gives back its last character to \<open>.+\<close>, which needs a run of
  two or more that does not end in a line terminator.
\<close>

definition bullet_match :: "jsstring \<Rightarrow> (jsstring \<times> jsstring) option" where
  "bullet_match line =
     (let ind = takeWhile is_ws line in
      case dropWhile is_ws line of
        [] \<Rightarrow> None
      | c # r1 \<Rightarrow>
          if \<not> is_bullet_char c then None
          else (let sp = takeWhile is_ws r1; t = dropWhile is_ws r1 in
                if sp = [] then None
                else if t \<noteq> [] then
                  (if list_ex is_line_terminator t then None else Some (ind, t))
                else if 2 \<le> length sp \<and> \<not> is_line_terminator (last sp) then Some (ind, [last sp])
                else None))"

definition parseBullets :: "jsstring \<Rightarrow> bullet list" where
  "parseBullets content =
     List.map_filter
       (\<lambda>line. case bullet_match line of
                  Some (ind, t) \<Rightarrow> Some \<lparr>b_text = t, b_level = length ind div 2\<rparr>
                | None \<Rightarrow> None)
       (split_char 10 content)"

section \<open>TableExtractor\<close>

record table_row =
  cells :: "jsstring list"
  isHeader :: bool

text \<open>
  The separator test \<open>/^\|[\s:-]+\|/.test(tableLine) && tableLine.includes('---')\<close>: the line
  starts with a pipe, then one or more of white space, colon and dash, then a pipe.
\<close>

definition is_sep_char :: "jschar \<Rightarrow> bool" where
  "is_sep_char c = (is_ws c \<or> c = 58 \<or> c = 45)"

definition is_separator :: "jsstring \<Rightarrow> bool" where
  "is_separator tableLine =
     ((case tableLine of
         [] \<Rightarrow> False
       | c # r \<Rightarrow> c = 124 \<and> takeWhile is_sep_char r \<noteq> [] \<and> startsWith (dropWhile is_sep_char r) [124])
      \<and> js_includes tableLine (js ''---''))"

text \<open>\<open>tableLine.split('|').slice(1, -1).map(cell => cell.trim())\<close>\<close>

definition row_cells :: "jsstring \<Rightarrow> jsstring list" where
  "row_cells tableLine = map trim (butlast (tl (split_char 124 tableLine)))"

text \<open>The loop over the lines of one table; \<open>hdr\<close> is the variable \<open>isHeader\<close>.\<close>

fun table_rows :: "bool \<Rightarrow> jsstring list \<Rightarrow> table_row list" where
  "table_rows hdr [] = []"
| "table_rows hdr (tableLine # ls) =
     (if is_separator tableLine then table_rows False ls
      else if row_cells tableLine \<noteq> []
           then \<lparr>cells = row_cells tableLine, isHeader = hdr\<rparr> # table_rows False ls
           else table_rows hdr ls)"

definition pipe_delimited :: "jsstring \<Rightarrow> bool" where
  "pipe_delimited line = (startsWith (trim line) [124] \<and> endsWith (trim line) [124])"

definition pipe_start :: "jsstring \<Rightarrow> bool" where
  "pipe_start line = startsWith (trim line) [124]"

text \<open>\<open>parseTables\<close>: the tables of a text with the index of their first line.  \<open>i\<close> is the
  index of the first of the remaining lines.\<close>

record table_at =
  rows_at :: "table_row list"
  startLine :: nat

function parseTables_loop :: "nat \<Rightarrow> jsstring list \<Rightarrow> table_at list" where
  "parseTables_loop i [] = []"
| "parseTables_loop i (line # rest) =
     (if pipe_delimited line then
        (let tableLines = takeWhile pipe_start (line # rest);
             rest' = dropWhile pipe_start (line # rest);
             rows = table_rows True tableLines
         in if 2 \<le> length tableLines \<and> rows \<noteq> []
            then \<lparr>rows_at = rows, startLine = i\<rparr> # parseTables_loop (i + length tableLines) rest'
            else parseTables_loop (i + length tableLines) rest')
      else parseTables_loop (i + 1) rest)"
  by pat_completeness auto
termination
  by (relation "measure (\<lambda>(i, ls). length ls)")
     (auto simp: pipe_delimited_def pipe_start_def length_dropWhile_le less_Suc_eq_le)

definition parseTables :: "jsstring \<Rightarrow> table_at list" where
  "parseTables content = parseTables_loop 0 (split_char 10 content)"


section \<open>ContentElementParser: parseContentElements\<close>

datatype element =
    Text jsstring
  | Bullets jsstring
  | Code jsstring jsstring
  | Table "table_row list"

record code_block =
  cb_placeholder :: jsstring
  cb_language :: jsstring
  cb_code :: jsstring

record table_block =
  tb_placeholder :: jsstring
  tb_rows :: "table_row list"

subsection \<open>Fenced code\<close>

definition fence :: jsstring where
  "fence = [96, 96, 96]"

text \<open>
  One match of \<open>/```(\w*)\r?\n([\s\S]*?)```/\<close> at the start of \<open>s\<close>: the language tag is the
  longest run of word characters (the next character has to be a line break), the line
  break is \<open>\n\<close> or \<open>\r\n\<close>, and the lazy body ends at the first closing fence.  The result
  is the two groups and the length of the whole match.
\<close>

definition fence_at :: "jsstring \<Rightarrow> (jsstring \<times> jsstring \<times> nat) option" where
  "fence_at s =
     (if \<not> startsWith s fence then None
      else (let r = drop 3 s;
                lang = takeWhile is_word r;
                r1 = dropWhile is_word r;
                eol = (if startsWith r1 [13, 10] then 2 else if startsWith r1 [10] then 1 else 0)
            in if eol = 0 then None
               else (case indexOf (drop eol r1) fence of
                       None \<Rightarrow> None
                     | Some k \<Rightarrow> Some (lang, take k (drop eol r1), 3 + length lang + eol + k + 3))))"

text \<open>
  The loop \<open>while ((match = codeRegex.exec(content)) !== null)\<close>: the matches from left to
  right, each search starting where the last match ended.  A match is the triple of the
  matched text and the two groups.
\<close>

function code_scan :: "jsstring \<Rightarrow> (jsstring \<times> jsstring \<times> jsstring) list" where
  "code_scan [] = []"
| "code_scan (c # cs) =
     (case fence_at (c # cs) of
        Some (lang, body, n) \<Rightarrow> (take n (c # cs), lang, body) # code_scan (drop n (c # cs))
      | None \<Rightarrow> code_scan cs)"
  by pat_completeness auto
termination
  by (relation "measure length")
     (auto simp: fence_at_def Let_def split: if_splits option.splits)

text \<open>\<open>s.replace(pat, rep)\<close> with a string pattern replaces the first occurrence; the
  placeholders hold no \<open>$\<close>, so the replacement is taken literally.\<close>

definition replace_first :: "jsstring \<Rightarrow> jsstring \<Rightarrow> jsstring \<Rightarrow> jsstring" where
  "replace_first s pat rep =
     (case indexOf s pat of
        None \<Rightarrow> s
      | Some i \<Rightarrow> take i s @ rep @ drop (i + length pat) s)"

definition code_placeholder :: "nat \<Rightarrow> jsstring" where
  "code_placeholder i = js ''__CODE_BLOCK_'' @ decimal i @ js ''__''"

definition table_placeholder :: "nat \<Rightarrow> jsstring" where
  "table_placeholder i = js ''__TABLE_'' @ decimal i @ js ''__''"

text \<open>The body of that loop, over the matches: \<open>idx\<close> is \<open>placeholderIndex\<close>, \<open>wc\<close> is
  \<open>workingContent\<close>.\<close>

fun extract_code ::
  "(jsstring \<times> jsstring \<times> jsstring) list \<Rightarrow> nat \<Rightarrow> code_block list \<Rightarrow> jsstring
     \<Rightarrow> code_block list \<times> jsstring" where
  "extract_code [] idx codeBlocks wc = (codeBlocks, wc)"
| "extract_code ((m0, lang, body) # ms) idx codeBlocks wc =
     extract_code ms (Suc idx)
       (codeBlocks @ [\<lparr>cb_placeholder = code_placeholder idx,
                       cb_language = (if lang = [] then js ''text'' else lang),
                       cb_code = trim body\<rparr>])
       (replace_first wc m0 (code_placeholder idx))"

subsection \<open>Tables\<close>

text \<open>The loop that replaces every table by a placeholder line.  A run of fewer than two
  lines, or one without rows, adds nothing to \<open>newLines\<close>.\<close>

function extract_tables ::
  "jsstring list \<Rightarrow> table_block list \<Rightarrow> jsstring list \<Rightarrow> table_block list \<times> jsstring list" where
  "extract_tables [] tables newLines = (tables, newLines)"
| "extract_tables (line # rest) tables newLines =
     (if pipe_delimited line then
        (let tableLines = takeWhile pipe_start (line # rest);
             rest' = dropWhile pipe_start (line # rest);
             rows = table_rows True tableLines
         in if 2 \<le> length tableLines \<and> rows \<noteq> []
            then extract_tables rest'
                   (tables @ [\<lparr>tb_placeholder = table_placeholder (length tables), tb_rows = rows\<rparr>])
                   (newLines @ [table_placeholder (length tables)])
            else extract_tables rest' tables newLines)
      else extract_tables rest tables (newLines @ [line]))"
  by pat_completeness auto
termination
  by (relation "measure (\<lambda>(ls, tables, newLines). length ls)")
     (auto simp: pipe_delimited_def pipe_start_def length_dropWhile_le less_Suc_eq_le)

subsection \<open>Classifying the remaining lines\<close>

text \<open>\<open>line.match(/__CODE_BLOCK_(\d+)__/)\<close> and \<open>line.match(/__TABLE_(\d+)__/)\<close>: the prefix,
  one or more digits and two underscores, anywhere in the line.\<close>

definition token_at :: "jsstring \<Rightarrow> jsstring \<Rightarrow> bool" where
  "token_at pre s =
     (startsWith s pre \<and> takeWhile is_digit (drop (length pre) s) \<noteq> []
      \<and> startsWith (dropWhile is_digit (drop (length pre) s)) (js ''__''))"

fun has_token :: "jsstring \<Rightarrow> jsstring \<Rightarrow> bool" where
  "has_token pre [] = False"
| "has_token pre (c # cs) = (if token_at pre (c # cs) then True else has_token pre cs)"

text \<open>\<open>/^\s*[-*\<bullet>]\s+/.test(line)\<close>\<close>

definition is_bullet_line :: "jsstring \<Rightarrow> bool" where
  "is_bullet_line line =
     (case dropWhile is_ws line of
        [] \<Rightarrow> False
      | c # r \<Rightarrow> is_bullet_char c \<and> (case r of [] \<Rightarrow> False | d # _ \<Rightarrow> is_ws d))"

record parse_state =
  elements :: "element list"
  currentBulletBlock :: "jsstring list"
  currentTextBlock :: "jsstring list"

definition flush_text :: "element list \<Rightarrow> jsstring list \<Rightarrow> element list" where
  "flush_text els txt = (if txt \<noteq> [] then els @ [Text (trim (join_char 10 txt))] else els)"

definition flush_bullets :: "element list \<Rightarrow> jsstring list \<Rightarrow> element list" where
  "flush_bullets els bul = (if bul \<noteq> [] then els @ [Bullets (join_char 10 bul)] else els)"

definition flush_both :: "parse_state \<Rightarrow> element list" where
  "flush_both st =
     flush_bullets (flush_text (elements st) (currentTextBlock st)) (currentBulletBlock st)"

text \<open>The body of the loop \<open>for (const line of finalLines)\<close>.\<close>

definition classify_line ::
  "code_block list \<Rightarrow> table_block list \<Rightarrow> parse_state \<Rightarrow> jsstring \<Rightarrow> parse_state" where
  "classify_line codeBlocks tables st line =
     (if has_token (js ''__CODE_BLOCK_'') line then
        \<lparr>elements =
           (case find (\<lambda>cb. cb_placeholder cb = trim line) codeBlocks of
              Some cb \<Rightarrow> flush_both st @ [Code (cb_language cb) (cb_code cb)]
            | None \<Rightarrow> flush_both st),
         currentBulletBlock = [], currentTextBlock = []\<rparr>
      else if has_token (js ''__TABLE_'') line then
        \<lparr>elements =
           (case find (\<lambda>t. tb_placeholder t = trim line) tables of
              Some t \<Rightarrow> flush_both st @ [Table (tb_rows t)]
            | None \<Rightarrow> flush_both st),
         currentBulletBlock = [], currentTextBlock = []\<rparr>
      else if is_bullet_line line then
        \<lparr>elements = flush_text (elements st) (currentTextBlock st),
         currentBulletBlock = currentBulletBlock st @ [line], currentTextBlock = []\<rparr>
      else if trim line \<noteq> [] then
        \<lparr>elements = flush_bullets (elements st) (currentBulletBlock st),
         currentBulletBlock = [], currentTextBlock = currentTextBlock st @ [line]\<rparr>
      else
        \<lparr>elements = flush_both st, currentBulletBlock = [], currentTextBlock = []\<rparr>)"

definition classify_lines ::
  "code_block list \<Rightarrow> table_block list \<Rightarrow> jsstring list \<Rightarrow> element list" where
  "classify_lines codeBlocks tables finalLines =
     flush_both (foldl (classify_line codeBlocks tables)
                   \<lparr>elements = [], currentBulletBlock = [], currentTextBlock = []\<rparr> finalLines)"

definition parseContentElements :: "jsstring \<Rightarrow> element list" where
  "parseContentElements content =
     (case extract_code (code_scan content) 0 [] content of
        (codeBlocks, workingContent) \<Rightarrow>
          (case extract_tables (split_char 10 workingContent) [] [] of
             (tables, newLines) \<Rightarrow>
               classify_lines codeBlocks tables (split_char 10 (join_char 10 newLines))))"


section \<open>ArchivePostProcessor: fixForGoogleSlides\<close>

text \<open>
  An archive is the list of its entries in enumeration order.  The type \<open>'d\<close> is the type of
  file contents (a Buffer).  The library functions that the generator calls are parameters:
  reading an archive from the bytes of a file, writing one, and the UTF-8 conversions
  \<open>content.toString('utf8')\<close> and \<open>Buffer.from(text, 'utf8')\<close>.
\<close>

record 'd zip_entry =
  entryName :: jsstring
  isDirectory :: bool
  getData :: 'd

record 'd zip_lib =
  readZip :: "'d \<Rightarrow> 'd zip_entry list option"
  toBuffer :: "(jsstring \<times> 'd) list \<Rightarrow> 'd"
  utf8_toString :: "'d \<Rightarrow> jsstring"
  utf8_from :: "jsstring \<Rightarrow> 'd"

datatype js_error = TypeError | FileNotFound | InvalidArchive

text \<open>\<open>path.basename\<close> and \<open>path.extname\<close> of Node.js for POSIX paths.  The extension starts
  at the last dot of the base name; there is none when the name has no dot, when the last
  dot is its first character, and for the name \<open>..\<close>.\<close>

definition basename :: "jsstring \<Rightarrow> jsstring" where
  "basename p = rev (takeWhile (\<lambda>c. c \<noteq> 47) (dropWhile (\<lambda>c. c = 47) (rev p)))"

definition extname :: "jsstring \<Rightarrow> jsstring" where
  "extname p =
     (let b = basename p in
      if 46 \<notin> set b then []
      else (let ext = 46 # rev (takeWhile (\<lambda>c. c \<noteq> 46) (rev b)) in
            if length ext = length b \<or> b = [46, 46] then [] else ext))"

text \<open>A JavaScript \<open>Map\<close> keeps its keys in insertion order; setting a key that is present
  changes the value in place.\<close>

fun map_set :: "jsstring \<Rightarrow> jsstring \<Rightarrow> (jsstring \<times> jsstring) list \<Rightarrow> (jsstring \<times> jsstring) list" where
  "map_set k v [] = [(k, v)]"
| "map_set k v ((k', v') # m) = (if k' = k then (k, v) # m else (k', v') # map_set k v m)"

definition is_media :: "'d zip_entry \<Rightarrow> bool" where
  "is_media entry = (startsWith (entryName entry) (js ''ppt/media/'') \<and> \<not> isDirectory entry)"

definition assigned_name :: "nat \<Rightarrow> jsstring \<Rightarrow> jsstring" where
  "assigned_name imageCounter oldName = js ''image'' @ decimal imageCounter @ extname oldName"

text \<open>The first loop over the entries, which fills \<open>imageRenames\<close>.\<close>

fun collect_renames ::
  "'d zip_entry list \<Rightarrow> nat \<Rightarrow> (jsstring \<times> jsstring) list \<Rightarrow> (jsstring \<times> jsstring) list" where
  "collect_renames [] imageCounter imageRenames = imageRenames"
| "collect_renames (entry # es) imageCounter imageRenames =
     (if is_media entry then
        (let oldName = basename (entryName entry);
             newName = assigned_name imageCounter oldName
         in collect_renames es (imageCounter + 1)
              (if oldName \<noteq> newName then map_set oldName newName imageRenames else imageRenames))
      else collect_renames es imageCounter imageRenames)"

text \<open>\<open>text.split(oldName).join(newName)\<close>: every occurrence, from left to right, without
  overlap.  With an empty separator \<open>split\<close> gives the single code units.\<close>

function replace_all :: "jsstring \<Rightarrow> jsstring \<Rightarrow> jsstring \<Rightarrow> jsstring" where
  "replace_all [] old new = []"
| "replace_all (c # cs) old new =
     (if old \<noteq> [] \<and> startsWith (c # cs) old
      then new @ replace_all (drop (length old) (c # cs)) old new
      else c # replace_all cs old new)"
  by pat_completeness auto
termination
  by (relation "measure (\<lambda>(s, old, new). length s)") auto

fun join_str :: "jsstring \<Rightarrow> jsstring list \<Rightarrow> jsstring" where
  "join_str sep [] = []"
| "join_str sep [l] = l"
| "join_str sep (l # ls) = l @ sep @ join_str sep ls"

definition split_join :: "jsstring \<Rightarrow> jsstring \<Rightarrow> jsstring \<Rightarrow> jsstring" where
  "split_join text old new =
     (if old = [] then join_str new (map (\<lambda>c. [c]) text) else replace_all text old new)"

text \<open>The body of the second loop: the name and the content with which \<open>addFile\<close> is
  called for one entry.\<close>

definition rewrite_entry ::
  "'d zip_lib \<Rightarrow> (jsstring \<times> jsstring) list \<Rightarrow> 'd zip_entry \<Rightarrow> jsstring \<times> 'd" where
  "rewrite_entry lib imageRenames entry =
     (let name0 = entryName entry;
          name1 = (if startsWith name0 (js ''ppt/media/'')
                   then (case map_of imageRenames (basename name0) of
                           Some newName \<Rightarrow> if newName \<noteq> [] then js ''ppt/media/'' @ newName else name0
                         | None \<Rightarrow> name0)
                   else name0);
          content = (if endsWith name1 (js ''.xml'') \<or> endsWith name1 (js ''.rels'')
                     then utf8_from lib
                            (foldl (\<lambda>text (oldName, newName). split_join text oldName newName)
                               (utf8_toString lib (getData entry)) imageRenames)
                     else getData entry)
      in (name1, content))"

text \<open>The file system is a map from paths to contents.  The new archive is the list of
  the calls of \<open>addFile\<close>.\<close>

definition fixForGoogleSlides ::
  "'d zip_lib \<Rightarrow> (jsstring \<rightharpoonup> 'd) \<Rightarrow> jsstring \<Rightarrow> jsstring \<Rightarrow> js_error + (jsstring \<rightharpoonup> 'd)" where
  "fixForGoogleSlides lib fs pptxPath outputPath =
     (case fs pptxPath of
        None \<Rightarrow> Inl FileNotFound
      | Some bytes \<Rightarrow>
          (case readZip lib bytes of
             None \<Rightarrow> Inl InvalidArchive
           | Some entries \<Rightarrow>
               (let imageRenames = collect_renames entries 1 [] in
                if imageRenames = [] then Inr (fs(outputPath \<mapsto> bytes))
                else Inr (fs(outputPath \<mapsto>
                            toBuffer lib (map (rewrite_entry lib imageRenames) entries))))))"

text \<open>What the specification calls an archive without renamable entries: the k-th media
  entry, counted from 1 in enumeration order, already has the name assigned to it.\<close>

definition already_sequential :: "'d zip_entry list \<Rightarrow> bool" where
  "already_sequential entries =
     (let media = filter is_media entries in
      list_all (\<lambda>i. basename (entryName (media ! i))
                       = assigned_name (Suc i) (basename (entryName (media ! i))))
        [0 ..< length media])"

section \<open>LayoutFlowEngine: addContentSlide\<close>

subsection \<open>Numbers\<close>

text \<open>
  A JavaScript number is a double.  A finite double is modelled by a pair \<open>(m, e)\<close> of
  integers that denotes \<open>m * 2^e\<close>: zero is \<open>(0, 0)\<close>, and otherwise the significand \<open>m\<close>
  has exactly 53 bits.  Every operation rounds its exact result to the nearest double, ties
  to even, as IEEE 754 arithmetic does.  The exponent range, the sign of zero, infinities
  and NaN are not modelled; the layout neither divides nor leaves the range of a few
  units and of heights proportional to a number of lines.
  \<open>bits n\<close> is the number of binary digits of \<open>n\<close>.
\<close>

type_synonym double = "int \<times> int"

function bits :: "int \<Rightarrow> int" where
  "bits n = (if n \<le> 0 then 0 else bits (n div 2) + 1)"
  by pat_completeness auto
termination
  by (relation "measure nat") auto

declare bits.simps [simp del]

text \<open>
  \<open>rnd_ratio N D\<close> is the double nearest to \<open>N / D\<close>, for \<open>D > 0\<close>.  With \<open>e0\<close> as below the
  quotient \<open>|N| / (D * 2^e0)\<close> lies between \<open>2^52\<close> and \<open>2^54\<close>; the exponent \<open>e\<close> is \<open>e0\<close> or
  \<open>e0 + 1\<close>, so that the scaled quotient \<open>n1 / d1\<close> lies from \<open>2^52\<close> up to \<open>2^53\<close>, and the
  significand is that quotient rounded to an integer.
\<close>

definition scaled :: "int \<Rightarrow> int \<Rightarrow> int \<Rightarrow> int \<times> int" where
  "scaled a D e = (if 0 \<le> e then (a, D * 2 ^ nat e) else (a * 2 ^ nat (- e), D))"

definition rnd_ratio :: "int \<Rightarrow> int \<Rightarrow> double" where
  "rnd_ratio N D =
     (if N = 0 then (0, 0)
      else (let a = \<bar>N\<bar>;
                e0 = bits a - bits D - 53;
                e = (case scaled a D e0 of (n0, d0) \<Rightarrow> if n0 < d0 * 2 ^ 53 then e0 else e0 + 1)
            in case scaled a D e of
                 (n1, d1) \<Rightarrow>
                   (let q = n1 div d1;
                        r = n1 mod d1;
                        m = (if 2 * r < d1 then q
                             else if d1 < 2 * r then q + 1
                             else if even q then q else q + 1)
                    in if m = 2 ^ 53 then (sgn N * 2 ^ 52, e + 1) else (sgn N * m, e))))"

text \<open>The double nearest to \<open>n * 2^e\<close>.\<close>

definition rnd_scaled :: "int \<Rightarrow> int \<Rightarrow> double" where
  "rnd_scaled n e = (if 0 \<le> e then rnd_ratio (n * 2 ^ nat e) 1 else rnd_ratio n (2 ^ nat (- e)))"

definition dadd :: "double \<Rightarrow> double \<Rightarrow> double" where
  "dadd x y =
     (let e = min (snd x) (snd y)
      in rnd_scaled (fst x * 2 ^ nat (snd x - e) + fst y * 2 ^ nat (snd y - e)) e)"

definition dsub :: "double \<Rightarrow> double \<Rightarrow> double" where
  "dsub x y = dadd x (- fst y, snd y)"

definition dmul :: "double \<Rightarrow> double \<Rightarrow> double" where
  "dmul x y = rnd_scaled (fst x * fst y) (snd x + snd y)"

definition dle :: "double \<Rightarrow> double \<Rightarrow> bool" where
  "dle x y =
     (let e = min (snd x) (snd y)
      in fst x * 2 ^ nat (snd x - e) \<le> fst y * 2 ^ nat (snd y - e))"

definition dlt :: "double \<Rightarrow> double \<Rightarrow> bool" where
  "dlt x y =
     (let e = min (snd x) (snd y)
      in fst x * 2 ^ nat (snd x - e) < fst y * 2 ^ nat (snd y - e))"

text \<open>\<open>Math.min\<close> and \<open>Math.max\<close>.\<close>

definition dmin :: "double \<Rightarrow> double \<Rightarrow> double" where
  "dmin x y = (if dle x y then x else y)"

definition dmax :: "double \<Rightarrow> double \<Rightarrow> double" where
  "dmax x y = (if dle x y then y else x)"

text \<open>The length of an array, and a decimal literal of the source: \<open>dlit 9 10\<close> is \<open>0.9\<close>,
  the double nearest to nine tenths.\<close>

definition d_of_nat :: "nat \<Rightarrow> double" where
  "d_of_nat n = rnd_ratio (int n) 1"

definition dlit :: "int \<Rightarrow> int \<Rightarrow> double" where
  "dlit N D = rnd_ratio N D"

text \<open>The rational that a double denotes.\<close>

definition dval :: "double \<Rightarrow> rat" where
  "dval x = (if 0 \<le> snd x then of_int (fst x) * 2 ^ nat (snd x)
             else of_int (fst x) / 2 ^ nat (- snd x))"

subsection \<open>The flow\<close>

record placement =
  p_element :: element
  p_y :: double
  p_h :: double

definition maxY :: double where
  "maxY = dlit 5 1"

definition placed :: "placement \<Rightarrow> js_error + placement list \<Rightarrow> js_error + placement list" where
  "placed p r = (case r of Inl e \<Rightarrow> Inl e | Inr ps \<Rightarrow> Inr (p # ps))"

text \<open>
  The loop \<open>for (const element of elements)\<close> of \<open>addContentSlide\<close>, with one equation for
  each case of \<open>switch (element.type)\<close>; the test of the cursor comes first in each.  A
  placement records the element with the \<open>y\<close> and the height that the loop computes for it.
  A bullets element without a bullet places nothing and leaves the cursor.  For a table
  without rows \<open>element.rows[0].cells\<close> raises a TypeError.
\<close>

fun flow :: "double \<Rightarrow> element list \<Rightarrow> js_error + placement list" where
  "flow yPos [] = Inr []"
| "flow yPos (Bullets content # rest) =
     (if dle maxY yPos then Inr []
      else (let bullets = parseBullets content in
            if bullets \<noteq> [] then
              (let estimatedHeight =
                     dmin (dmul (d_of_nat (length bullets)) (dlit 4 10)) (dsub maxY yPos)
               in placed \<lparr>p_element = Bullets content, p_y = yPos, p_h = estimatedHeight\<rparr>
                    (flow (dadd yPos (dadd estimatedHeight (dlit 15 100))) rest))
            else flow yPos rest))"
| "flow yPos (Text content # rest) =
     (if dle maxY yPos then Inr []
      else (let textHeight = dmin (dlit 12 10) (dsub maxY yPos)
            in placed \<lparr>p_element = Text content, p_y = yPos, p_h = textHeight\<rparr>
                 (flow (dadd yPos (dadd textHeight (dlit 1 10))) rest)))"
| "flow yPos (Code language code # rest) =
     (if dle maxY yPos then Inr []
      else (let codeLines = length (split_char 10 code);
                codeHeight =
                  dmin (dmax (dmul (d_of_nat codeLines) (dlit 28 100)) (dlit 12 10))
                       (dsub (dsub maxY yPos) (dlit 3 10))
            in placed \<lparr>p_element = Code language code, p_y = yPos, p_h = codeHeight\<rparr>
                 (flow (dadd yPos (dadd codeHeight (dlit 25 100))) rest)))"
| "flow yPos (Table rows # rest) =
     (if dle maxY yPos then Inr []
      else if rows = [] then Inl TypeError
      else (let tableHeight =
                  dmin (dmul (d_of_nat (length rows)) (dlit 4 10))
                       (dsub (dsub maxY yPos) (dlit 1 10))
            in placed \<lparr>p_element = Table rows, p_y = yPos, p_h = tableHeight\<rparr>
                 (flow (dadd yPos (dadd tableHeight (dlit 2 10))) rest)))"

text \<open>An element that the flow can place at all.\<close>

definition placeable :: "element \<Rightarrow> bool" where
  "placeable e = (case e of Bullets content \<Rightarrow> parseBullets content \<noteq> [] | _ \<Rightarrow> True)"

section \<open>generatePresentation\<close>

text \<open>
  A slide is recorded with its master, the text of its title box where the generator takes
  it from the document, the kinds of the objects added to it, and the placements of the
  flow.  Colours, fonts, fixed positions and the inline runs of bold and code text are not
  modelled, nor the texts that come from the configuration file; the configuration is
  taken to be complete.  \<open>logoExists\<close> is the result of \<open>fs.existsSync(logoPath)\<close>.
\<close>

datatype slide_object = AddShape | AddText | AddImage | AddTable

record slide =
  masterName :: jsstring
  heading :: "jsstring option"
  objects :: "slide_object list"
  placements :: "placement list"

definition addTitleSlide :: "bool \<Rightarrow> slide" where
  "addTitleSlide logoExists =
     \<lparr>masterName = js ''TITLE_SLIDE'', heading = None,
      objects = [AddText, AddText, AddText] @ (if logoExists then [AddImage] else []),
      placements = []\<rparr>"

text \<open>The default title of a plan slide is a Cyrillic literal of twelve code units.\<close>

definition plan_default_title :: jsstring where
  "plan_default_title = [1055, 1083, 1072, 1085, 32, 1079, 1072, 1085, 1103, 1090, 1090, 1103]"

definition addPlanSlide :: "jsstring \<Rightarrow> jsstring \<Rightarrow> slide" where
  "addPlanSlide title content =
     \<lparr>masterName = js ''CONTENT_SLIDE'',
      heading = Some (if title \<noteq> [] then title else plan_default_title),
      objects = [AddText, AddText], placements = []\<rparr>"

definition addDividerSlide :: "jsstring \<Rightarrow> slide" where
  "addDividerSlide title =
     \<lparr>masterName = js ''DIVIDER_SLIDE'', heading = Some title,
      objects = [AddShape, AddText], placements = []\<rparr>"

definition objects_of :: "placement \<Rightarrow> slide_object list" where
  "objects_of p =
     (case p_element p of
        Bullets _ \<Rightarrow> [AddText]
      | Text _ \<Rightarrow> [AddText]
      | Code _ _ \<Rightarrow> [AddShape, AddText]
      | Table _ \<Rightarrow> [AddTable])"

definition addContentSlide :: "jsstring \<Rightarrow> jsstring \<Rightarrow> js_error + slide" where
  "addContentSlide title content =
     (case flow (dlit 9 10) (parseContentElements content) of
        Inl e \<Rightarrow> Inl e
      | Inr ps \<Rightarrow>
          Inr \<lparr>masterName = js ''CONTENT_SLIDE'', heading = Some title,
               objects = [AddShape, AddShape, AddText] @ concat (map objects_of ps),
               placements = ps\<rparr>)"

definition addClosingSlide :: "bool \<Rightarrow> slide" where
  "addClosingSlide logoExists =
     \<lparr>masterName = js ''TITLE_SLIDE'', heading = None,
      objects = [AddText, AddText] @ (if logoExists then [AddImage, AddImage] else []),
      placements = []\<rparr>"

text \<open>The \<open>switch (slide.type)\<close> of \<open>generatePresentation\<close>.\<close>

definition add_slide :: "slide_record \<Rightarrow> js_error + slide" where
  "add_slide s =
     (if s_type s = js ''plan'' then Inr (addPlanSlide (s_title s) (s_content s))
      else if s_type s = js ''divider'' then Inr (addDividerSlide (s_title s))
      else if s_type s = js ''code'' then addContentSlide (s_title s) (s_content s)
      else addContentSlide (s_title s) (s_content s))"

fun add_slides :: "slide_record list \<Rightarrow> js_error + slide list" where
  "add_slides [] = Inr []"
| "add_slides (s # ss) =
     (case add_slide s of
        Inl e \<Rightarrow> Inl e
      | Inr sl \<Rightarrow> (case add_slides ss of Inl e \<Rightarrow> Inl e | Inr sls \<Rightarrow> Inr (sl # sls)))"

text \<open>The slides of the presentation when \<open>generatePresentation\<close> writes it.\<close>

definition build_deck ::
  "(jsstring \<Rightarrow> 'fm \<times> jsstring) \<Rightarrow> bool \<Rightarrow> jsstring \<Rightarrow> js_error + slide list" where
  "build_deck matter logoExists markdown =
     (case parseMarkdown matter markdown of
        (frontmatter, slides) \<Rightarrow>
          (case add_slides slides of
             Inl e \<Rightarrow> Inl e
           | Inr sls \<Rightarrow> Inr (addTitleSlide logoExists # sls @ [addClosingSlide logoExists])))"

text \<open>
  The whole function: the deck is written to a temporary file by the library (\<open>writeFile\<close>),
  the archive is post-processed into the output path and the temporary file is removed.
\<close>

definition generatePresentation ::
  "'d zip_lib \<Rightarrow> (slide list \<Rightarrow> 'd) \<Rightarrow> (jsstring \<Rightarrow> 'fm \<times> jsstring) \<Rightarrow> bool
     \<Rightarrow> (jsstring \<rightharpoonup> 'd) \<Rightarrow> jsstring \<Rightarrow> jsstring \<Rightarrow> js_error + (jsstring \<rightharpoonup> 'd) \<times> jsstring" where
  "generatePresentation lib writeFile matter logoExists fs markdown outputPath =
     (case build_deck matter logoExists markdown of
        Inl e \<Rightarrow> Inl e
      | Inr deck \<Rightarrow>
          (let tempPath = replace_first outputPath (js ''.pptx'') (js ''-temp.pptx'')
           in case fixForGoogleSlides lib (fs(tempPath \<mapsto> writeFile deck)) tempPath outputPath of
                Inl e \<Rightarrow> Inl e
              | Inr fs' \<Rightarrow> Inr (fs'(tempPath := None), outputPath)))"


section \<open>Example inputs\<close>

text \<open>
  A concrete instance of the library parameters, for the examples: a file is either plain
  bytes, read as text code unit by code unit, or an archive, which is the list of its named
  entries; an entry is a directory when its name ends with a slash.
\<close>

datatype blob = Bytes jsstring | Archive "(jsstring \<times> blob) list"

definition example_lib :: "blob zip_lib" where
  "example_lib =
     \<lparr>readZip = (\<lambda>b. case b of
                        Bytes _ \<Rightarrow> None
                      | Archive es \<Rightarrow>
                          Some (map (\<lambda>(n, d). \<lparr>entryName = n, isDirectory = endsWith n [47], getData = d\<rparr>) es)),
      toBuffer = Archive,
      utf8_toString = (\<lambda>b. case b of Bytes s \<Rightarrow> s | Archive _ \<Rightarrow> []),
      utf8_from = Bytes\<rparr>"

text \<open>A document without frontmatter: gray-matter returns the text as the body.\<close>

definition no_frontmatter :: "jsstring \<Rightarrow> unit \<times> jsstring" where
  "no_frontmatter content = ((), content)"

text \<open>An archive whose media entries already have their sequential names, and one with
  the same base name \<open>photo.png\<close> in two directories below the media directory.\<close>

definition sequential_archive :: blob where
  "sequential_archive =
     Archive [(js ''ppt/slides/slide1.xml'', Bytes (js ''<a r=image1.png/>'')),
              (js ''ppt/media/image1.png'', Bytes (js ''P'')),
              (js ''ppt/media/image2.jpg'', Bytes (js ''Q''))]"

definition duplicate_archive :: blob where
  "duplicate_archive =
     Archive [(js ''ppt/media/a/photo.png'', Bytes (js ''P1'')),
              (js ''ppt/media/logo.png'', Bytes (js ''L'')),
              (js ''ppt/media/b/photo.png'', Bytes (js ''P2'')),
              (js ''ppt/slides/_rels/slide1.xml.rels'',
               Bytes (js ''a/photo.png logo.png b/photo.png''))]"

text \<open>The two-slide document of the end-to-end example.\<close>

definition two_slide_document :: jsstring where
  "two_slide_document = js ''## [divider] Intro\<newline>## [content] Facts\<newline>- one\<newline>- two''"

section \<open>Auxiliary definitions of the proofs\<close>

text \<open>The header lines among the lines of a text, the first line counted only at a line
  start.\<close>

definition hdr_lines :: "bool \<Rightarrow> jsstring \<Rightarrow> nat" where
  "hdr_lines bol s =
     length (filter (\<lambda>l. startsWith l (js ''## ''))
               (if bol then split_lines s else tl (split_lines s)))"

text \<open>The elements on which the flow raises no error: a table has at least one row.\<close>

definition table_has_rows :: "element \<Rightarrow> bool" where
  "table_has_rows e = (case e of Table rows \<Rightarrow> rows \<noteq> [] | _ \<Rightarrow> True)"

text \<open>The cap that \<open>Math.min\<close> puts on the height of an element placed at \<open>y\<close>, and the
  gap that is added to the cursor after it.\<close>

definition height_cap :: "element \<Rightarrow> double \<Rightarrow> double" where
  "height_cap e y =
     (case e of
        Bullets _ \<Rightarrow> dsub maxY y
      | Text _ \<Rightarrow> dsub maxY y
      | Code _ _ \<Rightarrow> dsub (dsub maxY y) (dlit 3 10)
      | Table _ \<Rightarrow> dsub (dsub maxY y) (dlit 1 10))"

definition gap :: "element \<Rightarrow> double" where
  "gap e =
     (case e of
        Bullets _ \<Rightarrow> dlit 15 100
      | Text _ \<Rightarrow> dlit 1 10
      | Code _ _ \<Rightarrow> dlit 25 100
      | Table _ \<Rightarrow> dlit 2 10)"

text \<open>The cursor after the last placement of a flow that started at \<open>y\<close>.\<close>

definition end_cursor :: "double \<Rightarrow> placement list \<Rightarrow> double" where
  "end_cursor y ps =
     (if ps = [] then y
      else dadd (p_y (last ps)) (dadd (p_h (last ps)) (gap (p_element (last ps)))))"

text \<open>The Code elements of a parse.\<close>

definition is_Code :: "element \<Rightarrow> bool" where
  "is_Code e = (case e of Code _ _ \<Rightarrow> True | _ \<Rightarrow> False)"

text \<open>The height of an element before it is capped, and the height that the loop gives
  to the element at the cursor \<open>y\<close>: the smaller of the two.\<close>

definition natural_height :: "element \<Rightarrow> double" where
  "natural_height e =
     (case e of
        Bullets content \<Rightarrow> dmul (d_of_nat (length (parseBullets content))) (dlit 4 10)
      | Text _ \<Rightarrow> dlit 12 10
      | Code _ code \<Rightarrow> dmax (dmul (d_of_nat (length (split_char 10 code))) (dlit 28 100)) (dlit 12 10)
      | Table rows \<Rightarrow> dmul (d_of_nat (length rows)) (dlit 4 10))"

definition element_height :: "element \<Rightarrow> double \<Rightarrow> double" where
  "element_height e y = dmin (natural_height e) (height_cap e y)"

text \<open>The cursor after a placement, and the cursor that the loop goes on with after it has
  placed the element \<open>e\<close> at \<open>y\<close>.\<close>

definition cursor_after :: "placement \<Rightarrow> double" where
  "cursor_after p = dadd (p_y p) (dadd (p_h p) (gap (p_element p)))"

definition next_cursor :: "element \<Rightarrow> double \<Rightarrow> double" where
  "next_cursor e y = dadd y (dadd (element_height e y) (gap e))"

text \<open>The placements follow the cursor: the first is at \<open>y\<close>, each next one at the cursor
  after its predecessor.\<close>

fun chained :: "double \<Rightarrow> placement list \<Rightarrow> bool" where
  "chained y [] = True"
| "chained y (p # ps) = (p_y p = y \<and> chained (cursor_after p) ps)"

text \<open>A code block whose capped height is negative, and the placements whose \<open>y\<close> grows
  strictly from one to the next except after such a code block.\<close>

definition shrunk :: "placement \<Rightarrow> bool" where
  "shrunk p = (is_Code (p_element p) \<and> dlt (p_h p) (dlit 0 1))"

fun ascending :: "placement list \<Rightarrow> bool" where
  "ascending (p # q # ps) = ((shrunk p \<or> dlt (p_y p) (p_y q)) \<and> ascending (q # ps))"
| "ascending ps = True"

text \<open>What the flow from the cursor \<open>y\<close> over \<open>els\<close> returns: the placements \<open>ps\<close> of the
  placeable elements among the first \<open>k\<close>.\<close>

definition flow_outcome :: "double \<Rightarrow> element list \<Rightarrow> placement list \<Rightarrow> nat \<Rightarrow> bool" where
  "flow_outcome y els ps k =
     (flow y els = Inr ps \<and> k \<le> length els
      \<and> map p_element ps = filter placeable (take k els)
      \<and> chained y ps
      \<and> list_all (\<lambda>p. dlt (p_y p) maxY \<and> p_h p = element_height (p_element p) (p_y p)) ps
      \<and> (if k < length els then dle maxY (end_cursor y ps) else True)
      \<and> (if dle (dlit 0 1) y then ascending ps else True))"


text \<open>A header line that carries a type tag: an opening bracket, the tag \<open>w\<close> of one or more
  word characters, a closing bracket, the white space \<open>sp\<close> and the title \<open>t\<close>, which does
  not begin with white space and holds no line terminator.\<close>

definition tagged_header :: "jsstring \<Rightarrow> jsstring \<Rightarrow> jsstring \<Rightarrow> jsstring \<Rightarrow> bool" where
  "tagged_header h w sp t =
     (h = 91 # w @ 93 # sp @ t \<and> w \<noteq> [] \<and> list_all is_word w \<and> list_all is_ws sp
      \<and> (case t of [] \<Rightarrow> True | c # _ \<Rightarrow> \<not> is_ws c)
      \<and> \<not> list_ex is_line_terminator t)"









section \<open>Properties of the slide splitter\<close>

lemma js_marker: "js ''## '' = [35, 35, 32]" by (simp add: js_def)

lemma split_lines_ne: "split_lines s \<noteq> []"
  by (induction s) (auto simp: Let_def)

lemma split_headers_ne: "split_headers b s \<noteq> []"
  by (induction b s rule: split_headers.induct) (auto simp: Let_def)

lemma hd_split_lines_take:
  "\<forall>c \<in> set p. \<not> is_line_terminator c \<Longrightarrow> (take (length p) (hd (split_lines s)) = p) = (take (length p) s = p)"
proof (induction s arbitrary: p)
  case Nil then show ?case by simp
next
  case (Cons c cs)
  show ?case
  proof (cases p)
    case Nil then show ?thesis by simp
  next
    case (Cons d ds)
    with Cons.prems Cons.IH[of ds] show ?thesis by (auto simp: Let_def)
  qed
qed

lemma startsWith_marker_Cons:
  "startsWith (c # l) (js ''## '') = (c = 35 \<and> take 2 l = [35, 32])"
  by (cases l; cases "tl l") (auto simp: startsWith_def js_marker)

lemma startsWith_marker_Nil: "\<not> startsWith [] (js ''## '')"
  by (simp add: startsWith_def js_marker)

lemma hd_split_lines_marker:
  "(take 2 (hd (split_lines cs)) = [35, 32]) = (take 2 cs = [35, 32])"
  using hd_split_lines_take[of "[35,32]" cs] by (simp add: is_line_terminator_def numeral_2_eq_2)

lemma split_headers_len: "length (split_headers bol s) = Suc (hdr_lines bol s)"
proof (induction bol s rule: split_headers.induct)
  case (1 bol) then show ?case by (simp add: startsWith_marker_Nil hdr_lines_def)
next
  case (2 bol c cs)
  show ?case
  proof (cases "bol \<and> c = 35 \<and> take 2 cs = [35, 32]")
    case True
    then obtain r where cs: "cs = 35 # 32 # r"
      by (cases cs; cases "tl cs") auto
    from True 2(1) have IH: "length (split_headers False r) = Suc (hdr_lines False r)" by (simp add: cs)
    have "hdr_lines bol (c # cs) = Suc (hdr_lines False r)"
      using True split_lines_ne[of r]
      by (cases "split_lines r") (simp_all add: cs hdr_lines_def is_line_terminator_def Let_def startsWith_marker_Cons)
    with True cs IH show ?thesis by simp
  next
    case False
    with 2(2) have IH: "length (split_headers (is_line_terminator c) cs) = Suc (hdr_lines (is_line_terminator c) cs)" by simp
    have ne: "split_headers (is_line_terminator c) cs \<noteq> []" by (rule split_headers_ne)
    have len: "length (split_headers bol (c # cs)) = length (split_headers (is_line_terminator c) cs)"
      using False ne by (cases "split_headers (is_line_terminator c) cs") (auto simp: Let_def)
    show ?thesis
    proof (cases "is_line_terminator c")
      case True
      then have "hdr_lines bol (c # cs) = hdr_lines True cs"
        by (simp add: hdr_lines_def startsWith_marker_Nil)
      then show ?thesis using len IH True by simp
    next
      case lt: False
      obtain a list where sl: "split_lines cs = a # list"
        using split_lines_ne[of cs] by (cases "split_lines cs") auto
      have a: "(take 2 a = [35, 32]) = (take 2 cs = [35, 32])"
        using hd_split_lines_marker[of cs] by (simp add: sl)
      have "hdr_lines bol (c # cs) = hdr_lines False cs"
        using lt False by (auto simp add: hdr_lines_def sl Let_def startsWith_marker_Cons a)
      then show ?thesis using len IH lt by simp
    qed
  qed
qed

lemma split_headers_count: "length (split_headers True body) = Suc (header_count body)"
  using split_headers_len[of True body] by (simp add: header_count_def hdr_lines_def)


lemma split_headers_join: "join_str (js ''## '') (split_headers bol s) = s"
proof (induction bol s rule: split_headers.induct)
  case (1 bol) then show ?case by simp
next
  case (2 bol c cs)
  show ?case
  proof (cases "bol \<and> c = 35 \<and> take 2 cs = [35, 32]")
    case True
    then obtain r where cs: "cs = 35 # 32 # r"
      by (cases cs; cases "tl cs") auto
    obtain a l where sh: "split_headers False r = a # l"
      using split_headers_ne[of False r] by (cases "split_headers False r") auto
    from True 2(1) have "join_str (js ''## '') (split_headers False r) = r" by (simp add: cs)
    with True cs sh show ?thesis by (simp add: js_marker)
  next
    case False
    obtain a l where sh: "split_headers (is_line_terminator c) cs = a # l"
      using split_headers_ne[of "is_line_terminator c" cs]
      by (cases "split_headers (is_line_terminator c) cs") auto
    from False 2(2) have "join_str (js ''## '') (split_headers (is_line_terminator c) cs) = cs" by simp
    with False sh show ?thesis by (cases l) (auto simp: Let_def)
  qed
qed

text \<open>
  Claim C1, as the code has it.  The body is split at every slide-header line, so the
  chunks joined by the marker give the body back, and there is one chunk more than header
  lines: the text before the first header, then one chunk for each header.  \<open>parseMarkdown\<close>
  returns one record for every chunk that is not blank, in that order.  So the number of
  records is the number of headers, less the headers whose section is blank, plus one when
  the text before the first header is not blank.
\<close>

theorem parse_slides_per_section:
  "join_str (js ''## '') (split_headers True body) = body
   \<and> length (split_headers True body) = Suc (header_count body)
   \<and> parse_slides body
       = map section_record (filter (\<lambda>s. trim s \<noteq> []) (split_headers True body))
   \<and> length (parse_slides body)
         + length (filter (\<lambda>s. trim s = []) (tl (split_headers True body)))
       = header_count body + (if trim (hd (split_headers True body)) = [] then 0 else 1)"
proof -
  obtain h t where ch: "split_headers True body = h # t"
    using split_headers_ne[of True body] by (cases "split_headers True body") auto
  have len: "length t = header_count body"
    using split_headers_count[of body] by (simp add: ch)
  have "length (filter (\<lambda>s. trim s \<noteq> []) t) + length (filter (\<lambda>s. trim s = []) t) = length t"
    using sum_length_filter_compl[of "\<lambda>s. trim s = []" t] by simp
  then have cnt: "length (parse_slides body) + length (filter (\<lambda>s. trim s = []) t)
      = header_count body + (if trim h = [] then 0 else 1)"
    using len by (simp add: parse_slides_def sections_def ch)
  show ?thesis
    using cnt split_headers_join[of True body] split_headers_count[of body]
    by (simp add: ch parse_slides_def sections_def)
qed

text \<open>
  Claim C1 as stated fails: with one header line and text before it, two records are
  returned.
\<close>

theorem parse_slides_preamble_counterexample:
  "header_count (js ''Welcome\<newline>## [content] A'') = 1
   \<and> length (parse_slides (js ''Welcome\<newline>## [content] A'')) = 2"
  by code_simp

section \<open>Properties of the slide type\<close>

lemma takeWhile_run:
  "list_all P w \<Longrightarrow> (case r of [] \<Rightarrow> True | c # _ \<Rightarrow> \<not> P c) \<Longrightarrow>
   takeWhile P (w @ r) = w \<and> dropWhile P (w @ r) = r"
  by (induction w) (auto split: list.splits)

lemma header_match_tagged:
  assumes "tagged_header h w sp t"
  shows "header_match h = Some (w, t)"
proof -
  from assms have h: "h = 91 # w @ 93 # sp @ t" and w: "w \<noteq> []" "list_all is_word w"
    and sp: "list_all is_ws sp" and t: "(case t of [] \<Rightarrow> True | c # _ \<Rightarrow> \<not> is_ws c)"
    and lt: "\<not> list_ex is_line_terminator t"
    by (simp_all add: tagged_header_def)
  have nb: "\<not> is_word 93" by (simp add: is_word_def)
  have a: "takeWhile is_word (w @ 93 # sp @ t) = w \<and> dropWhile is_word (w @ 93 # sp @ t) = 93 # sp @ t"
    by (rule takeWhile_run[OF w(2)]) (simp add: nb)
  have b: "dropWhile is_ws (sp @ t) = t"
    using takeWhile_run[OF sp t] by simp
  show ?thesis
    using w(1) lt by (simp add: header_match_def h a b Let_def)
qed

lemma header_match_Some:
  assumes "header_match h = Some (w, t)"
  shows "\<exists>sp. tagged_header h w sp t"
proof -
  from assms obtain r where h: "h = 91 # r"
    by (cases h) (auto simp: header_match_def split: if_splits)
  from assms h have w: "w = takeWhile is_word r" and wne: "takeWhile is_word r \<noteq> []"
    by (auto simp: header_match_def Let_def split: if_splits list.splits)
  from assms h obtain r2 where r1: "dropWhile is_word r = 93 # r2"
    by (auto simp: header_match_def Let_def split: if_splits list.splits)
  from assms h r1 have t: "t = dropWhile is_ws r2" and lt: "\<not> list_ex is_line_terminator t"
    by (auto simp: header_match_def Let_def split: if_splits list.splits)
  have r: "r = w @ 93 # takeWhile is_ws r2 @ t"
    using takeWhile_dropWhile_id[of is_word r] by (simp add: w r1 t)
  have hd: "(case t of [] \<Rightarrow> True | c # _ \<Rightarrow> \<not> is_ws c)"
  proof (cases "dropWhile is_ws r2")
    case Nil
    show ?thesis by (simp only: t Nil list.case)
  next
    case (Cons c cs)
    then have "\<not> is_ws c" using hd_dropWhile[of is_ws r2] by simp
    then show ?thesis by (simp only: t Cons list.case not_False_eq_True)
  qed
  have aw: "list_all is_word w"
    unfolding w list_all_iff by (blast dest: set_takeWhileD)
  have as: "list_all is_ws (takeWhile is_ws r2)"
    unfolding list_all_iff by (blast dest: set_takeWhileD)
  have hh: "h = 91 # w @ 93 # takeWhile is_ws r2 @ t"
    by (simp only: h) (rule arg_cong[OF r])
  have wn: "w \<noteq> []" unfolding w by (rule wne)
  have "tagged_header h w (takeWhile is_ws r2) t"
    unfolding tagged_header_def
    by (intro conjI hh wn aw as hd lt)
  then show ?thesis ..
qed

lemma header_match_None:
  "header_match h = None \<Longrightarrow> \<not> tagged_header h w sp t"
  using header_match_tagged[of h w sp t] by auto

lemma section_record_tagged:
  "tagged_header (hd (split_char 10 (trim sec))) w sp t \<Longrightarrow>
   s_type (section_record sec) = toLowerCase_word w \<and> s_title (section_record sec) = t"
  by (simp add: section_record_def Let_def header_match_tagged)

lemma section_record_untagged:
  assumes "\<forall>w sp t. \<not> tagged_header (hd (split_char 10 (trim sec))) w sp t"
  shows "s_type (section_record sec) = js ''content''
       \<and> s_title (section_record sec) = hd (split_char 10 (trim sec))"
proof (cases "header_match (hd (split_char 10 (trim sec)))")
  case None
  then show ?thesis by (simp add: section_record_def Let_def)
next
  case (Some p)
  obtain w t where "p = (w, t)" by (cases p)
  with Some header_match_Some assms show ?thesis by blast
qed

text \<open>
  Claim C9, as the code has it.  A header line carries a type tag when it is an opening
  bracket, a tag of one or more word characters (letters, digits, underscore), a closing
  bracket, white space, and a title that holds no line terminator.  The tag of such a line,
  known or not, is kept in lower case as the type of the record, and the title is the rest
  after the white space.  Every other header line gives a record of type \<open>content\<close> whose
  title is the whole line: a line without brackets, a line whose brackets hold another
  character, as in \<open>[c++]\<close>, and a line that ends with a carriage return after the title.
  \<open>generatePresentation\<close> then renders every record whose type is neither \<open>plan\<close> nor
  \<open>divider\<close> as a content slide, so an unknown type is rendered as content without being
  stored as \<open>content\<close>.
\<close>

theorem slide_type_of_header:
  "(tagged_header (hd (split_char 10 (trim sec))) w sp t
      \<longrightarrow> s_type (section_record sec) = toLowerCase_word w \<and> s_title (section_record sec) = t)
   \<and> ((\<forall>w sp t. \<not> tagged_header (hd (split_char 10 (trim sec))) w sp t)
      \<longrightarrow> s_type (section_record sec) = js ''content''
          \<and> s_title (section_record sec) = hd (split_char 10 (trim sec)))
   \<and> (s_type s \<noteq> js ''plan'' \<and> s_type s \<noteq> js ''divider''
      \<longrightarrow> add_slide s = addContentSlide (s_title s) (s_content s))"
  using section_record_tagged[of sec w sp t] section_record_untagged[of sec]
  by (simp add: add_slide_def)

theorem slide_type_of_header_witness:
  "s_type (section_record (js ''[Foo] Bar'')) = js ''foo''
   \<and> s_title (section_record (js ''[Foo] Bar'')) = js ''Bar''
   \<and> s_type (section_record (js ''Plain heading'')) = js ''content''
   \<and> s_type (section_record (js ''[c++] Title'')) = js ''content''
   \<and> s_title (section_record (js ''[c++] Title'')) = js ''[c++] Title''
   \<and> s_type (section_record (js ''[plan] A'' @ [13, 10] @ js ''text'')) = js ''content''
   \<and> s_title (section_record (js ''[plan] A'' @ [13, 10] @ js ''text'')) = js ''[plan] A'' @ [13]
   \<and> add_slide (section_record (js ''[Foo] Bar''))
       = addContentSlide (s_title (section_record (js ''[Foo] Bar'')))
           (s_content (section_record (js ''[Foo] Bar'')))"
proof -
  let ?foo = "section_record (js ''[Foo] Bar'')"
  have t1: "tagged_header (hd (split_char 10 (trim (js ''[Foo] Bar'')))) (js ''Foo'') (js '' '') (js ''Bar'')"
    by code_simp
  have l1: "toLowerCase_word (js ''Foo'') = js ''foo''"
    by code_simp
  have n2: "\<forall>w sp t. \<not> tagged_header (hd (split_char 10 (trim (js ''Plain heading'')))) w sp t"
    by (intro allI header_match_None) code_simp
  have n3: "\<forall>w sp t. \<not> tagged_header (hd (split_char 10 (trim (js ''[c++] Title'')))) w sp t"
    by (intro allI header_match_None) code_simp
  have h3: "hd (split_char 10 (trim (js ''[c++] Title''))) = js ''[c++] Title''"
    by code_simp
  have n4: "\<forall>w sp t. \<not> tagged_header
      (hd (split_char 10 (trim (js ''[plan] A'' @ [13, 10] @ js ''text'')))) w sp t"
    by (intro allI header_match_None) code_simp
  have h4: "hd (split_char 10 (trim (js ''[plan] A'' @ [13, 10] @ js ''text''))) = js ''[plan] A'' @ [13]"
    by code_simp
  have d: "js ''foo'' \<noteq> js ''plan'' \<and> js ''foo'' \<noteq> js ''divider''"
    by code_simp
  from slide_type_of_header[of "js ''[Foo] Bar''" "js ''Foo''" "js '' ''" "js ''Bar''" ?foo] t1 l1
  have a: "s_type ?foo = js ''foo'' \<and> s_title ?foo = js ''Bar''" by simp
  from slide_type_of_header[of "js ''Plain heading''" "[]" "[]" "[]" ?foo] n2
  have b: "s_type (section_record (js ''Plain heading'')) = js ''content''" by blast
  from slide_type_of_header[of "js ''[c++] Title''" "[]" "[]" "[]" ?foo] n3 h3
  have c: "s_type (section_record (js ''[c++] Title'')) = js ''content''
         \<and> s_title (section_record (js ''[c++] Title'')) = js ''[c++] Title''" by metis
  from slide_type_of_header[of "js ''[plan] A'' @ [13, 10] @ js ''text''" "[]" "[]" "[]" ?foo] n4 h4
  have e: "s_type (section_record (js ''[plan] A'' @ [13, 10] @ js ''text'')) = js ''content''
         \<and> s_title (section_record (js ''[plan] A'' @ [13, 10] @ js ''text'')) = js ''[plan] A'' @ [13]"
    by metis
  from slide_type_of_header[of "js ''[Foo] Bar''" "[]" "[]" "[]" ?foo] a d
  have f: "add_slide ?foo = addContentSlide (s_title ?foo) (s_content ?foo)" by metis
  from a b c e f show ?thesis by blast
qed

text \<open>
  Claim C9 as stated fails: the unknown tag \<open>foo\<close> is the type of the record.
\<close>

theorem slide_type_unknown_counterexample:
  "parse_slides (js ''## [foo] Title'')
     = [\<lparr>s_type = js ''foo'', s_title = js ''Title'', s_content = []\<rparr>]
   \<and> js ''foo'' \<noteq> js ''content''"
  by code_simp

section \<open>Properties of the table rows\<close>








section \<open>Properties of the line classification\<close>

text \<open>
  Claim C6 fails on the code: a run of pipe-delimited lines that is too short for a table
  is consumed by the table loop and never put back, so the line is in no element at all.
\<close>

theorem single_pipe_line_dropped:
  "parseContentElements (js ''| only | row |'') = []
   \<and> parseContentElements (js ''Before\<newline>| only | row |\<newline>After'')
       = [Text (js ''Before\<newline>After'')]"
  by code_simp

lemma find_None_image: "x \<notin> f ` set xs \<Longrightarrow> find (\<lambda>y. f y = x) xs = None"
  by (induction xs) auto

text \<open>
  Claim C10, as the code has it.  The classification loop runs over the lines that are left
  after the fenced code and the tables were replaced.  There, a line that holds a
  placeholder token, and whose trimmed text is no placeholder of this parse, closes the
  open text or bullet block and adds no element, and it is not added to a block.
\<close>

theorem stray_token_line_dropped:
  "has_token (js ''__CODE_BLOCK_'') line \<or> has_token (js ''__TABLE_'') line \<Longrightarrow>
   trim line \<notin> cb_placeholder ` set codeBlocks \<Longrightarrow>
   trim line \<notin> tb_placeholder ` set tables \<Longrightarrow>
   classify_line codeBlocks tables st line
     = \<lparr>elements = flush_both st, currentBulletBlock = [], currentTextBlock = []\<rparr>"
  by (auto simp: classify_line_def find_None_image)

theorem stray_token_line_dropped_witness:
  "classify_line [] []
     \<lparr>elements = [], currentBulletBlock = [], currentTextBlock = [js ''some text'']\<rparr>
     (js ''see __TABLE_7__ below'')
   = \<lparr>elements = [Text (js ''some text'')], currentBulletBlock = [], currentTextBlock = []\<rparr>"
proof -
  have h: "has_token (js ''__CODE_BLOCK_'') (js ''see __TABLE_7__ below'')
        \<or> has_token (js ''__TABLE_'') (js ''see __TABLE_7__ below'')" by code_simp
  have f: "flush_both \<lparr>elements = [], currentBulletBlock = [], currentTextBlock = [js ''some text'']\<rparr>
      = [Text (js ''some text'')]" by code_simp
  from stray_token_line_dropped[OF h, of "[]" "[]"
      "\<lparr>elements = [], currentBulletBlock = [], currentTextBlock = [js ''some text'']\<rparr>"] f
  show ?thesis by simp
qed

text \<open>
  Claim C10 as stated fails for a line of the input that is inside a fenced code block: it
  holds a token and is no placeholder, and its text is in the Code element.
\<close>

theorem token_in_code_counterexample:
  "has_token (js ''__TABLE_'') (js ''__TABLE_0__ x'')
   \<and> parseContentElements (js ''```\<newline>__TABLE_0__ x\<newline>```'')
       = [Code (js ''text'') (js ''__TABLE_0__ x'')]"
  by code_simp

section \<open>Properties of the archive post-processor\<close>

lemma collect_renames_sequential:
  "\<forall>i < length (filter is_media es).
      basename (entryName (filter is_media es ! i))
        = assigned_name (k + i) (basename (entryName (filter is_media es ! i)))
   \<Longrightarrow> collect_renames es k m = m"
proof (induction es arbitrary: k)
  case Nil then show ?case by simp
next
  case (Cons e es)
  show ?case
  proof (cases "is_media e")
    case False
    with Cons show ?thesis by simp
  next
    case True
    from Cons.prems True have same: "basename (entryName e) = assigned_name k (basename (entryName e))"
      by fastforce
    have "\<forall>i < length (filter is_media es).
      basename (entryName (filter is_media es ! i))
        = assigned_name (Suc k + i) (basename (entryName (filter is_media es ! i)))"
    proof (intro allI impI)
      fix i assume "i < length (filter is_media es)"
      then have "Suc i < length (filter is_media (e # es))" using True by simp
      from Cons.prems[rule_format, OF this] True show
        "basename (entryName (filter is_media es ! i))
          = assigned_name (Suc k + i) (basename (entryName (filter is_media es ! i)))" by simp
    qed
    from Cons.IH[OF this] True same show ?thesis by (simp add: Let_def)
  qed
qed

lemma already_sequential_no_renames:
  "already_sequential entries \<Longrightarrow> collect_renames entries 1 [] = []"
  by (rule collect_renames_sequential) (simp add: already_sequential_def Let_def list_all_iff)

text \<open>
  Claim C8.  When every media entry already has the name assigned to it, the map of renames
  stays empty and the source file is copied: the content of the output path is the content
  of the source path, and no other path changes.
\<close>

theorem fast_path_copies_verbatim:
  "fs pptxPath = Some bytes \<Longrightarrow> readZip lib bytes = Some entries \<Longrightarrow>
   already_sequential entries \<Longrightarrow>
   fixForGoogleSlides lib fs pptxPath outputPath = Inr (fs(outputPath \<mapsto> bytes))"
  unfolding fixForGoogleSlides_def
  by (simp add: already_sequential_no_renames del: One_nat_def)

theorem fast_path_copies_verbatim_witness:
  "fixForGoogleSlides example_lib [js ''in.pptx'' \<mapsto> sequential_archive] (js ''in.pptx'') (js ''out.pptx'')
     = Inr [js ''in.pptx'' \<mapsto> sequential_archive, js ''out.pptx'' \<mapsto> sequential_archive]"
proof -
  let ?es = "[\<lparr>entryName = js ''ppt/slides/slide1.xml'', isDirectory = False, getData = Bytes (js ''<a r=image1.png/>'')\<rparr>,
              \<lparr>entryName = js ''ppt/media/image1.png'', isDirectory = False, getData = Bytes (js ''P'')\<rparr>,
              \<lparr>entryName = js ''ppt/media/image2.jpg'', isDirectory = False, getData = Bytes (js ''Q'')\<rparr>]"
  have h1: "[js ''in.pptx'' \<mapsto> sequential_archive] (js ''in.pptx'') = Some sequential_archive"
    by simp
  have h2: "readZip example_lib sequential_archive = Some ?es"
    by code_simp
  have h3: "already_sequential ?es"
    by code_simp
  from fast_path_copies_verbatim[of "[js ''in.pptx'' \<mapsto> sequential_archive]" "js ''in.pptx''"
      sequential_archive example_lib ?es "js ''out.pptx''", OF h1 h2 h3]
  show ?thesis .
qed

text \<open>
  Claim C4 fails on the code.  The renames are keyed by base name, so the second
  \<open>photo.png\<close> overwrites the name of the first: both entries are added as
  \<open>ppt/media/image3.png\<close>, no entry is named \<open>image1.png\<close>, and every \<open>photo.png\<close> in
  the relationship file becomes \<open>image3.png\<close>.
\<close>

theorem duplicate_basename_collision:
  "fixForGoogleSlides example_lib [js ''in.pptx'' \<mapsto> duplicate_archive] (js ''in.pptx'') (js ''out.pptx'')
     = Inr [js ''in.pptx'' \<mapsto> duplicate_archive,
            js ''out.pptx'' \<mapsto>
              Archive [(js ''ppt/media/image3.png'', Bytes (js ''P1'')),
                       (js ''ppt/media/image2.png'', Bytes (js ''L'')),
                       (js ''ppt/media/image3.png'', Bytes (js ''P2'')),
                       (js ''ppt/slides/_rels/slide1.xml.rels'',
                        Bytes (js ''a/image3.png image2.png b/image3.png''))]]"
proof -
  let ?es = "[\<lparr>entryName = js ''ppt/media/a/photo.png'', isDirectory = False, getData = Bytes (js ''P1'')\<rparr>,
              \<lparr>entryName = js ''ppt/media/logo.png'', isDirectory = False, getData = Bytes (js ''L'')\<rparr>,
              \<lparr>entryName = js ''ppt/media/b/photo.png'', isDirectory = False, getData = Bytes (js ''P2'')\<rparr>,
              \<lparr>entryName = js ''ppt/slides/_rels/slide1.xml.rels'', isDirectory = False,
               getData = Bytes (js ''a/photo.png logo.png b/photo.png'')\<rparr>]"
  have h2: "readZip example_lib duplicate_archive = Some ?es"
    by code_simp
  have h3: "collect_renames ?es 1 []
      = [(js ''photo.png'', js ''image3.png''), (js ''logo.png'', js ''image2.png'')]"
    by code_simp
  have h4: "map (rewrite_entry example_lib
               [(js ''photo.png'', js ''image3.png''), (js ''logo.png'', js ''image2.png'')]) ?es
      = [(js ''ppt/media/image3.png'', Bytes (js ''P1'')),
         (js ''ppt/media/image2.png'', Bytes (js ''L'')),
         (js ''ppt/media/image3.png'', Bytes (js ''P2'')),
         (js ''ppt/slides/_rels/slide1.xml.rels'', Bytes (js ''a/image3.png image2.png b/image3.png''))]"
    by code_simp
  have h5: "toBuffer example_lib = Archive" by (simp add: example_lib_def)
  have h1: "[js ''in.pptx'' \<mapsto> duplicate_archive] (js ''in.pptx'') = Some duplicate_archive"
    by simp
  show ?thesis
    unfolding fixForGoogleSlides_def h1 option.case h2 h3 Let_def h4 h5 by simp
qed

section \<open>Properties of the deck\<close>

lemma two_slide_records:
  "parse_slides two_slide_document
     = [\<lparr>s_type = js ''divider'', s_title = js ''Intro'', s_content = []\<rparr>,
        \<lparr>s_type = js ''content'', s_title = js ''Facts'', s_content = js ''- one\<newline>- two''\<rparr>]"
  by code_simp

lemma two_slide_slides:
  "add_slides [\<lparr>s_type = js ''divider'', s_title = js ''Intro'', s_content = []\<rparr>,
               \<lparr>s_type = js ''content'', s_title = js ''Facts'', s_content = js ''- one\<newline>- two''\<rparr>]
     = Inr [addDividerSlide (js ''Intro''),
            \<lparr>masterName = js ''CONTENT_SLIDE'', heading = Some (js ''Facts''),
             objects = [AddShape, AddShape, AddText, AddText],
             placements = [\<lparr>p_element = Bullets (js ''- one\<newline>- two''), p_y = dlit 9 10,
                             p_h = dmul (d_of_nat 2) (dlit 4 10)\<rparr>]\<rparr>]"
  by code_simp

text \<open>
  Claim C2, as the code has it.  \<open>generatePresentation\<close> adds the title slide before the
  slides of the document, so the two-slide document gives four slides: the title slide,
  the divider slide, the content slide and the closing slide.  The body of the content
  slide is parsed into one Bullets element, and its bullets are the two entries at level 0.
\<close>

theorem two_slide_document_deck:
  "build_deck no_frontmatter logoExists two_slide_document
     = Inr [addTitleSlide logoExists,
            addDividerSlide (js ''Intro''),
            \<lparr>masterName = js ''CONTENT_SLIDE'', heading = Some (js ''Facts''),
             objects = [AddShape, AddShape, AddText, AddText],
             placements = [\<lparr>p_element = Bullets (js ''- one\<newline>- two''), p_y = dlit 9 10,
                             p_h = dmul (d_of_nat 2) (dlit 4 10)\<rparr>]\<rparr>,
            addClosingSlide logoExists]
   \<and> parseContentElements (js ''- one\<newline>- two'') = [Bullets (js ''- one\<newline>- two'')]
   \<and> parseBullets (js ''- one\<newline>- two'')
       = [\<lparr>b_text = js ''one'', b_level = 0\<rparr>, \<lparr>b_text = js ''two'', b_level = 0\<rparr>]"
proof -
  have a: "build_deck no_frontmatter logoExists two_slide_document
     = Inr [addTitleSlide logoExists,
            addDividerSlide (js ''Intro''),
            \<lparr>masterName = js ''CONTENT_SLIDE'', heading = Some (js ''Facts''),
             objects = [AddShape, AddShape, AddText, AddText],
             placements = [\<lparr>p_element = Bullets (js ''- one\<newline>- two''), p_y = dlit 9 10,
                             p_h = dmul (d_of_nat 2) (dlit 4 10)\<rparr>]\<rparr>,
            addClosingSlide logoExists]"
    unfolding build_deck_def parseMarkdown_def no_frontmatter_def prod.case
      two_slide_records two_slide_slides by simp
  have b: "parseContentElements (js ''- one\<newline>- two'') = [Bullets (js ''- one\<newline>- two'')]"
    by code_simp
  have c: "parseBullets (js ''- one\<newline>- two'')
       = [\<lparr>b_text = js ''one'', b_level = 0\<rparr>, \<lparr>b_text = js ''two'', b_level = 0\<rparr>]"
    by code_simp
  from a b c show ?thesis by blast
qed

text \<open>
  Claim C2 as stated fails: the deck of the two-slide document has four slides, not three.
\<close>

theorem two_slide_document_counterexample:
  "map_sum id length (build_deck no_frontmatter False two_slide_document) = Inr 4
   \<and> map_sum id (map masterName) (build_deck no_frontmatter False two_slide_document)
       = Inr [js ''TITLE_SLIDE'', js ''DIVIDER_SLIDE'', js ''CONTENT_SLIDE'', js ''TITLE_SLIDE'']"
  by code_simp

section \<open>Properties of the layout flow\<close>

text \<open>The model of the numbers gives the results that JavaScript prints: \<open>0.1 + 0.2\<close> is
  \<open>0.30000000000000004\<close>, \<open>5 - 4.8\<close> is \<open>0.20000000000000018\<close>, \<open>3 * 0.4\<close> is
  \<open>1.2000000000000002\<close>, and \<open>2^53 + 1\<close> is rounded to \<open>2^53\<close>.\<close>

lemma double_examples:
  "dadd (dlit 1 10) (dlit 2 10) = dlit 30000000000000004 100000000000000000"
  "dsub (dlit 5 1) (dlit 48 10) = dlit 20000000000000018 100000000000000000"
  "dmul (d_of_nat 3) (dlit 4 10) = dlit 12000000000000002 10000000000000000"
  "dlit 9007199254740993 1 = dlit 9007199254740992 1"
  by code_simp+

lemma dlt_iff: "dlt x y = (\<not> dle y x)"
  by (auto simp: dlt_def dle_def Let_def min.commute)

lemma dle_refl: "dle x x"
  by (simp add: dle_def)

lemma dmin_le2: "dle (dmin a b) b"
  by (simp add: dmin_def dle_refl)

lemma flow_stop: "dle maxY y \<Longrightarrow> flow y els = Inr []"
proof (cases els)
  case Nil
  then show ?thesis by simp
next
  case (Cons e es)
  assume "dle maxY y"
  with Cons show ?thesis by (cases e) simp_all
qed

lemma bits_bounds: "0 < n \<Longrightarrow> 1 \<le> bits n \<and> 2 ^ nat (bits n - 1) \<le> n \<and> n < 2 ^ nat (bits n)"
proof (induction n rule: bits.induct)
  case (1 n)
  show ?case
  proof (cases "n div 2 \<le> 0")
    case True
    with 1(2) have "n = 1" by linarith
    then show ?thesis by (simp add: bits.simps)
  next
    case False
    then have pos: "0 < n div 2" by simp
    from 1(2) have "\<not> n \<le> 0" by simp
    from 1(1)[OF this pos] have k1: "1 \<le> bits (n div 2)"
      and lo: "2 ^ nat (bits (n div 2) - 1) \<le> n div 2"
      and hi: "n div 2 < 2 ^ nat (bits (n div 2))" by simp_all
    have b: "bits n = bits (n div 2) + 1" using 1(2) by (subst bits.simps) simp
    have e1: "nat (bits n - 1) = Suc (nat (bits (n div 2) - 1))" using b k1 by simp
    have e2: "nat (bits n) = Suc (nat (bits (n div 2)))" using b k1 by simp
    have "2 * (n div 2) \<le> n" by simp
    with lo have l: "(2::int) ^ nat (bits n - 1) \<le> n" unfolding e1 by simp
    have "n < 2 * (n div 2) + 2" by linarith
    with hi have h: "n < 2 ^ nat (bits n)" unfolding e2 by simp
    from b k1 l h show ?thesis by simp
  qed
qed

lemma dval_powi: "dval x = of_int (fst x) * 2 powi (snd x)"
  by (simp add: dval_def power_int_def field_simps)

lemma powi_nat_diff: "b \<le> a \<Longrightarrow> (2::rat) ^ nat (a - b) * 2 powi b = 2 powi a"
proof -
  assume "b \<le> a"
  then have "(2::rat) ^ nat (a - b) = 2 powi (a - b)" by (simp add: power_int_nonneg_exp)
  then show ?thesis by (simp add: power_int_add[symmetric])
qed

lemma dle_dval: "dle x y = (dval x \<le> dval y)"
proof -
  define e where "e = min (snd x) (snd y)"
  have ex: "(2::rat) ^ nat (snd x - e) * 2 powi e = 2 powi (snd x)"
    and ey: "(2::rat) ^ nat (snd y - e) * 2 powi e = 2 powi (snd y)"
    by (simp_all add: powi_nat_diff e_def)
  have p: "(0::rat) < 2 powi e" by simp
  have "dle x y = (fst x * 2 ^ nat (snd x - e) \<le> fst y * 2 ^ nat (snd y - e))"
    by (simp add: dle_def e_def Let_def)
  also have "\<dots> = ((of_int (fst x * 2 ^ nat (snd x - e)) :: rat) \<le> of_int (fst y * 2 ^ nat (snd y - e)))"
    by (simp only: of_int_le_iff)
  also have "\<dots> = ((of_int (fst x * 2 ^ nat (snd x - e)) :: rat) * 2 powi e
                     \<le> of_int (fst y * 2 ^ nat (snd y - e)) * 2 powi e)"
    using p by (simp only: mult_le_cancel_right_pos)
  also have "\<dots> = (dval x \<le> dval y)"
    using ex ey by (simp add: dval_powi mult.assoc)
  finally show ?thesis .
qed

lemma dlt_dval: "dlt x y = (dval x < dval y)"
proof -
  have "dlt x y = (\<not> dle y x)"
    by (auto simp: dlt_def dle_def Let_def min.commute)
  then show ?thesis by (simp add: dle_dval not_le)
qed

lemma dmin_dval: "dval (dmin x y) = min (dval x) (dval y)"
  by (simp add: dmin_def dle_dval min_def)

lemma dmax_dval: "dval (dmax x y) = max (dval x) (dval y)"
  by (simp add: dmax_def dle_dval max_def)

lemma scaled_ratio:
  assumes "0 < D" and "scaled a D e = (n, d)"
  shows "0 < d \<and> (of_int n :: rat) = of_int a / of_int D * 2 powi (- e) * of_int d"
proof (cases "0 \<le> e")
  case True
  with assms have n: "n = a" and d: "d = D * 2 ^ nat e" by (simp_all add: scaled_def)
  have "(2::rat) powi (- e) = 1 / 2 ^ nat e"
    using True by (simp add: power_int_minus_divide power_int_nonneg_exp)
  with assms(1) show ?thesis by (simp add: n d)
next
  case False
  with assms have n: "n = a * 2 ^ nat (- e)" and d: "d = D" by (simp_all add: scaled_def)
  have "(2::rat) powi (- e) = 2 ^ nat (- e)"
    using False by (simp add: power_int_nonneg_exp)
  with assms(1) show ?thesis by (simp add: n d)
qed

lemma powi_pred: "(2::rat) powi (k - 1) * 2 = 2 powi k"
  using power_int_add[of "2::rat" "k - 1" 1] by simp

lemma round_half:
  fixes n d :: int
  assumes "0 < d" and q_def: "q = n div d" and r_def: "r = n mod d"
    and m_def: "m = (if 2 * r < d then q else if d < 2 * r then q + 1 else if even q then q else q + 1)"
  shows "\<bar>(of_int m :: rat) - of_int n / of_int d\<bar> \<le> 1 / 2"
proof -
  have n: "n = q * d + r" by (simp add: q_def r_def)
  have r0: "0 \<le> r" and rd: "r < d" using assms(1) by (simp_all add: r_def)
  have X: "(of_int n :: rat) / of_int d = of_int q + of_int r / of_int d"
    using assms(1) by (simp add: n field_simps)
  have dpos: "(0::rat) < of_int d" using assms(1) by simp
  have fr0: "(0::rat) \<le> of_int r / of_int d" using r0 dpos by simp
  have fr1: "(of_int r :: rat) / of_int d < 1" using rd dpos by simp
  consider "2 * r < d" | "d < 2 * r" | "2 * r = d" by linarith
  then show ?thesis
  proof cases
    case 1
    then have "(of_int (2 * r) :: rat) < of_int d" by (simp only: of_int_less_iff)
    then have "(of_int r :: rat) / of_int d < 1 / 2" using dpos by (simp add: field_simps)
    with 1 fr0 show ?thesis by (simp add: m_def X)
  next
    case 2
    then have "(of_int d :: rat) < of_int (2 * r)" by (simp only: of_int_less_iff)
    then have "1 / 2 < (of_int r :: rat) / of_int d" using dpos by (simp add: field_simps)
    with 2 fr1 show ?thesis by (simp add: m_def X)
  next
    case 3
    then have "(of_int d :: rat) = of_int (2 * r)" by simp
    then have h: "(of_int r :: rat) / of_int d = 1 / 2" using dpos by (simp add: field_simps)
    from 3 show ?thesis by (simp add: m_def X h)
  qed
qed

lemma rnd_ratio_error:
  assumes D: "0 < D"
  shows "\<bar>dval (rnd_ratio N D) - of_int N / of_int D\<bar> \<le> \<bar>of_int N / of_int D\<bar> / 2 ^ 53"
proof (cases "N = 0")
  case True
  then show ?thesis by (simp add: rnd_ratio_def dval_def)
next
  case False
  define a where "a = \<bar>N\<bar>"
  define e0 where "e0 = bits a - bits D - 53"
  obtain n0 d0 where s0: "scaled a D e0 = (n0, d0)" by (cases "scaled a D e0")
  define e where "e = (if n0 < d0 * 2 ^ 53 then e0 else e0 + 1)"
  obtain n1 d1 where s1: "scaled a D e = (n1, d1)" by (cases "scaled a D e")
  define q where "q = n1 div d1"
  define r where "r = n1 mod d1"
  define m where "m = (if 2 * r < d1 then q else if d1 < 2 * r then q + 1 else if even q then q else q + 1)"
  define R :: rat where "R = of_int a / of_int D"
  define X :: rat where "X = of_int n1 / of_int d1"
  have apos: "0 < a" using False by (simp add: a_def)
  have Rpos: "0 < R" using apos D by (simp add: R_def)
  from scaled_ratio[OF D s0] have d0: "0 < d0"
    and r0: "(of_int n0 :: rat) = R * 2 powi (- e0) * of_int d0" by (simp_all add: R_def)
  from scaled_ratio[OF D s1] have d1: "0 < d1"
    and r1: "(of_int n1 :: rat) = R * 2 powi (- e) * of_int d1" by (simp_all add: R_def)
  have X: "X = R * 2 powi (- e)" using d1 by (simp add: X_def r1)
  have e_alt: "e = (case scaled a D e0 of (n0, d0) \<Rightarrow> if n0 < d0 * 2 ^ 53 then e0 else e0 + 1)"
    by (simp add: s0 e_def)
  have step: "rnd_ratio N D = (case scaled a D e of (n1, d1) \<Rightarrow>
                      (let q = n1 div d1; r = n1 mod d1;
                           m = (if 2 * r < d1 then q else if d1 < 2 * r then q + 1
                                else if even q then q else q + 1)
                       in if m = 2 ^ 53 then (sgn N * 2 ^ 52, e + 1) else (sgn N * m, e)))"
    unfolding rnd_ratio_def Let_def e_alt e0_def a_def by (simp only: False if_False)
  have res: "rnd_ratio N D = (if m = 2 ^ 53 then (sgn N * 2 ^ 52, e + 1) else (sgn N * m, e))"
    unfolding m_def q_def r_def by (simp only: step s1 prod.case Let_def)
  have val: "dval (rnd_ratio N D) = of_int (sgn N) * of_int m * 2 powi e"
  proof (cases "m = 2 ^ 53")
    case True
    have "(2::rat) powi (e + 1) = 2 powi e * 2" by (simp add: power_int_add)
    with True show ?thesis by (simp add: res dval_powi)
  next
    case False
    then show ?thesis by (simp add: res dval_powi)
  qed
  have near: "\<bar>(of_int m :: rat) - X\<bar> \<le> 1 / 2"
    unfolding X_def by (rule round_half[OF d1 q_def r_def m_def])
  have big: "2 ^ 52 \<le> X"
  proof (cases "n0 < d0 * 2 ^ 53")
    case True
    then have ee: "e = e0" by (simp add: e_def)
    from bits_bounds[OF apos] have la: "2 ^ nat (bits a - 1) \<le> a" and ka: "1 \<le> bits a" by simp_all
    from bits_bounds[OF D] have hd: "D < 2 ^ nat (bits D)" and kd: "1 \<le> bits D" by simp_all
    have "(of_int (2 ^ nat (bits a - 1)) :: rat) \<le> of_int a" using la by (simp only: of_int_le_iff)
    then have la': "(2::rat) powi (bits a - 1) \<le> of_int a"
      using ka by (simp add: power_int_nonneg_exp)
    have "(of_int D :: rat) < of_int (2 ^ nat (bits D))" using hd by (simp only: of_int_less_iff)
    then have hd': "(of_int D :: rat) < 2 powi (bits D)"
      using kd by (simp add: power_int_nonneg_exp)
    have "(2::rat) ^ 52 * of_int D * 2 powi e0 < 2 ^ 52 * 2 powi (bits D) * 2 powi e0"
      using hd' by simp
    also have "\<dots> = 2 powi 52 * 2 powi (bits D) * 2 powi e0" by simp
    also have "\<dots> = 2 powi (bits a - 1)"
      by (simp add: power_int_add[symmetric] e0_def del: power_int_numeral)
    finally have "(2::rat) ^ 52 * of_int D * 2 powi e0 \<le> of_int a" using la' by simp
    moreover have "(0::rat) < of_int D * 2 powi e0" using D by simp
    ultimately have "(2::rat) ^ 52 \<le> of_int a / (of_int D * 2 powi e0)"
      by (simp add: pos_le_divide_eq mult.assoc)
    then show ?thesis by (simp add: X R_def ee power_int_minus field_simps)
  next
    case False
    then have ee: "e = e0 + 1" by (simp add: e_def)
    from False have "d0 * 2 ^ 53 \<le> n0" by simp
    then have "(of_int (d0 * 2 ^ 53) :: rat) \<le> of_int n0" by (simp only: of_int_le_iff)
    then have "(of_int d0 :: rat) * 2 ^ 53 \<le> R * 2 powi (- e0) * of_int d0" by (simp add: r0)
    then have "(2::rat) ^ 53 \<le> R * 2 powi (- e0)" using d0 by simp
    moreover have "(2::rat) powi (- e0) = 2 powi (- e) * 2"
      using powi_pred[of "- e0"] by (simp add: ee)
    ultimately have "(2::rat) ^ 53 \<le> R * (2 powi (- e) * 2)" by simp
    then show ?thesis by (simp add: X)
  qed
  have p: "(0::rat) < 2 powi e" by simp
  have Rx: "R = X * 2 powi e" by (simp add: X power_int_minus field_simps)
  have sN: "(of_int N :: rat) / of_int D = of_int (sgn N) * R"
    by (simp add: R_def a_def sgn_if)
  have "\<bar>dval (rnd_ratio N D) - of_int N / of_int D\<bar>
      = \<bar>of_int (sgn N) * ((of_int m - X) * 2 powi e)\<bar>"
    by (simp add: val sN Rx algebra_simps)
  also have "\<dots> = \<bar>of_int m - X\<bar> * 2 powi e"
    using False p by (simp add: abs_mult sgn_if)
  also have "\<dots> \<le> (1 / 2) * 2 powi e"
    using near p by (simp only: mult_le_cancel_right_pos)
  also have "\<dots> \<le> (X / 2 ^ 53) * 2 powi e"
    using big p by (simp add: field_simps)
  also have "\<dots> = \<bar>of_int N / of_int D\<bar> / 2 ^ 53"
    using big False by (simp add: sN Rx abs_mult sgn_if)
  finally show ?thesis .
qed

lemma rel_bounds:
  fixes r x :: rat
  assumes "\<bar>r - x\<bar> \<le> \<bar>x\<bar> / 2 ^ 53"
  shows "x - \<bar>x\<bar> / 9007199254740992 \<le> r" and "r \<le> x + \<bar>x\<bar> / 9007199254740992"
proof -
  have "(2::rat) ^ 53 = 9007199254740992" by simp
  with assms have "\<bar>r - x\<bar> \<le> \<bar>x\<bar> / 9007199254740992" by (simp only:)
  then show "x - \<bar>x\<bar> / 9007199254740992 \<le> r" and "r \<le> x + \<bar>x\<bar> / 9007199254740992"
    by linarith+
qed

lemma rel_nonneg:
  fixes r x :: rat
  assumes "\<bar>r - x\<bar> \<le> \<bar>x\<bar> / 2 ^ 53" and "0 \<le> x"
  shows "0 \<le> r"
  using rel_bounds[OF assms(1)] assms(2) by linarith

lemma rel_pos:
  fixes r x :: rat
  assumes "\<bar>r - x\<bar> \<le> \<bar>x\<bar> / 2 ^ 53" and "0 < x"
  shows "0 < r"
  using rel_bounds[OF assms(1)] assms(2) by linarith

lemma rnd_scaled_error:
  "\<bar>dval (rnd_scaled n e) - of_int n * 2 powi e\<bar> \<le> \<bar>of_int n * 2 powi e\<bar> / 2 ^ 53"
proof (cases "0 \<le> e")
  case True
  have p: "(2::rat) powi e = 2 ^ nat e"
    using True by (simp add: power_int_nonneg_exp)
  have "(of_int (n * 2 ^ nat e) :: rat) / of_int 1 = of_int n * 2 powi e"
    by (simp add: p)
  with rnd_ratio_error[of 1 "n * 2 ^ nat e"] have
    "\<bar>dval (rnd_ratio (n * 2 ^ nat e) 1) - of_int n * 2 powi e\<bar> \<le> \<bar>of_int n * 2 powi e\<bar> / 2 ^ 53"
    by (simp only: zero_less_one)
  with True show ?thesis
    by (simp only: rnd_scaled_def if_True)
next
  case False
  then have "(2::rat) powi e = 1 / 2 ^ nat (- e)"
    by (simp add: power_int_def field_simps)
  then have "(of_int n :: rat) / of_int (2 ^ nat (- e)) = of_int n * 2 powi e"
    by simp
  moreover have "(0::int) < 2 ^ nat (- e)" by simp
  ultimately have
    "\<bar>dval (rnd_ratio n (2 ^ nat (- e))) - of_int n * 2 powi e\<bar> \<le> \<bar>of_int n * 2 powi e\<bar> / 2 ^ 53"
    using rnd_ratio_error[of "2 ^ nat (- e)" n] by (simp only:)
  with False show ?thesis
    by (simp only: rnd_scaled_def if_False)
qed

lemma dadd_exact:
  "of_int (fst x * 2 ^ nat (snd x - min (snd x) (snd y)) + fst y * 2 ^ nat (snd y - min (snd x) (snd y)))
     * (2::rat) powi (min (snd x) (snd y)) = dval x + dval y"
proof -
  have a: "(2::rat) ^ nat (snd x - min (snd x) (snd y)) * 2 powi (min (snd x) (snd y)) = 2 powi (snd x)"
    by (rule powi_nat_diff) simp
  have b: "(2::rat) ^ nat (snd y - min (snd x) (snd y)) * 2 powi (min (snd x) (snd y)) = 2 powi (snd y)"
    by (rule powi_nat_diff) simp
  show ?thesis
    by (simp add: dval_powi distrib_right mult.assoc a b)
qed

lemma dadd_error:
  "\<bar>dval (dadd x y) - (dval x + dval y)\<bar> \<le> \<bar>dval x + dval y\<bar> / 2 ^ 53"
  using rnd_scaled_error[of "fst x * 2 ^ nat (snd x - min (snd x) (snd y)) + fst y * 2 ^ nat (snd y - min (snd x) (snd y))"
      "min (snd x) (snd y)"]
  by (simp only: dadd_exact dadd_def Let_def)

lemma dval_neg: "dval (- fst y, snd y) = - dval y"
  by (simp add: dval_powi)

lemma dsub_error:
  "\<bar>dval (dsub x y) - (dval x - dval y)\<bar> \<le> \<bar>dval x - dval y\<bar> / 2 ^ 53"
  using dadd_error[of x "(- fst y, snd y)"] by (simp add: dsub_def dval_neg)

lemma dmul_error:
  "\<bar>dval (dmul x y) - dval x * dval y\<bar> \<le> \<bar>dval x * dval y\<bar> / 2 ^ 53"
proof -
  have "of_int (fst x * fst y) * (2::rat) powi (snd x + snd y) = dval x * dval y"
    by (simp add: dval_powi power_int_add)
  with rnd_scaled_error[of "fst x * fst y" "snd x + snd y"] show ?thesis
    by (simp add: dmul_def)
qed

lemma dlit_error:
  "0 < D \<Longrightarrow> \<bar>dval (dlit N D) - of_int N / of_int D\<bar> \<le> \<bar>of_int N / of_int D\<bar> / 2 ^ 53"
  unfolding dlit_def by (rule rnd_ratio_error)

lemma d_of_nat_nonneg: "0 \<le> dval (d_of_nat n)"
proof -
  have "\<bar>dval (rnd_ratio (int n) 1) - of_nat n\<bar> \<le> \<bar>of_nat n\<bar> / 2 ^ 53"
    using rnd_ratio_error[of 1 "int n"] by simp
  moreover have "(0::rat) \<le> of_nat n" by simp
  ultimately show ?thesis unfolding d_of_nat_def by (rule rel_nonneg)
qed

lemma dval_maxY: "dval maxY = 5"
proof -
  have m: "maxY = (5629499534213120, - 50)" by code_simp
  show ?thesis unfolding m dval_def by simp
qed

lemma dval_zero: "dval (dlit 0 1) = 0"
  by (simp add: dlit_def rnd_ratio_def dval_def)

lemma dlit_bounds:
  assumes "0 < D" and "0 \<le> N"
  shows "of_int N / of_int D - of_int N / of_int D / 9007199254740992 \<le> dval (dlit N D)"
    and "dval (dlit N D) \<le> of_int N / of_int D + of_int N / of_int D / 9007199254740992"
proof -
  have "(0::rat) \<le> of_int N / of_int D" using assms by simp
  with rel_bounds[OF dlit_error[OF assms(1), of N]]
  show "of_int N / of_int D - of_int N / of_int D / 9007199254740992 \<le> dval (dlit N D)"
    and "dval (dlit N D) \<le> of_int N / of_int D + of_int N / of_int D / 9007199254740992"
    by simp_all
qed

lemma gap_bounds: "99 / 1000 \<le> dval (gap e) \<and> dval (gap e) \<le> 251 / 1000"
proof (cases e)
  case (Bullets c)
  from dlit_bounds[of 100 15] show ?thesis by (simp add: Bullets gap_def)
next
  case (Text c)
  from dlit_bounds[of 10 1] show ?thesis by (simp add: Text gap_def)
next
  case (Code l c)
  from dlit_bounds[of 100 25] show ?thesis by (simp add: Code gap_def)
next
  case (Table r)
  from dlit_bounds[of 10 2] show ?thesis by (simp add: Table gap_def)
qed

lemma gap_table: "199 / 1000 \<le> dval (gap (Table r))"
  using dlit_bounds[of 10 2] by (simp add: gap_def)

lemma gap_code: "249 / 1000 \<le> dval (gap (Code l c))"
  using dlit_bounds[of 100 25] by (simp add: gap_def)

lemma dmul_nonneg: "0 \<le> dval x \<Longrightarrow> 0 \<le> dval y \<Longrightarrow> 0 \<le> dval (dmul x y)"
  by (rule rel_nonneg[OF dmul_error]) simp

lemma dlit_nonneg: "0 < D \<Longrightarrow> 0 \<le> N \<Longrightarrow> 0 \<le> dval (dlit N D)"
  by (rule rel_nonneg[OF dlit_error]) simp_all

lemma natural_height_nonneg: "0 \<le> dval (natural_height e)"
proof (cases e)
  case (Bullets c)
  then show ?thesis by (simp add: natural_height_def dmul_nonneg d_of_nat_nonneg dlit_nonneg)
next
  case (Text c)
  then show ?thesis by (simp add: natural_height_def dlit_nonneg)
next
  case (Code l c)
  then show ?thesis by (simp add: natural_height_def dmax_dval dlit_nonneg le_max_iff_disj)
next
  case (Table r)
  then show ?thesis by (simp add: natural_height_def dmul_nonneg d_of_nat_nonneg dlit_nonneg)
qed

lemma natural_height_code: "119 / 100 \<le> dval (natural_height (Code l c))"
  using dlit_bounds[of 10 12] by (simp add: natural_height_def dmax_dval le_max_iff_disj)

text \<open>The space that is left below the cursor.\<close>

lemma space_left:
  assumes "dval y < 5"
  shows "0 < dval (dsub maxY y)"
    and "5 - dval y - (5 - dval y) / 9007199254740992 \<le> dval (dsub maxY y)"
    and "dval (dsub maxY y) \<le> 5 - dval y + (5 - dval y) / 9007199254740992"
proof -
  have e: "\<bar>dval (dsub maxY y) - (5 - dval y)\<bar> \<le> \<bar>5 - dval y\<bar> / 2 ^ 53"
    using dsub_error[of maxY y] by (simp only: dval_maxY)
  from assms have p: "0 < 5 - dval y" by simp
  show "0 < dval (dsub maxY y)" by (rule rel_pos[OF e p])
  from rel_bounds[OF e] p
  show "5 - dval y - (5 - dval y) / 9007199254740992 \<le> dval (dsub maxY y)"
    and "dval (dsub maxY y) \<le> 5 - dval y + (5 - dval y) / 9007199254740992"
    by simp_all
qed

lemma space_left_bounds:
  assumes "0 \<le> dval y" and "dval y < 5"
  shows "5 - dval y - 1 / 1000000 \<le> dval (dsub maxY y)" and "dval (dsub maxY y) \<le> 6"
proof -
  define x where "x = 5 - dval y"
  have e: "\<bar>dval (dsub maxY y) - x\<bar> \<le> \<bar>x\<bar> / 2 ^ 53"
    unfolding x_def using dsub_error[of maxY y] by (simp only: dval_maxY)
  from rel_bounds[OF e] assms x_def
  show "5 - dval y - 1 / 1000000 \<le> dval (dsub maxY y)" and "dval (dsub maxY y) \<le> 6"
    by linarith+
qed

lemma height_and_gap:
  assumes "dval y < 5" and "is_Code e \<longrightarrow> 0 \<le> dval (element_height e y)"
  shows "1 / 20 \<le> dval (element_height e y) + dval (gap e)"
proof (cases e)
  case (Bullets c)
  with space_left(1)[OF assms(1)] natural_height_nonneg[of e] have "0 \<le> dval (element_height e y)"
    by (simp add: element_height_def height_cap_def dmin_dval)
  with gap_bounds[of e] show ?thesis by linarith
next
  case (Text c)
  with space_left(1)[OF assms(1)] natural_height_nonneg[of e] have "0 \<le> dval (element_height e y)"
    by (simp add: element_height_def height_cap_def dmin_dval)
  with gap_bounds[of e] show ?thesis by linarith
next
  case (Code l c)
  with assms(2) have "0 \<le> dval (element_height e y)" by (simp add: is_Code_def)
  with gap_bounds[of e] show ?thesis by linarith
next
  case (Table r)
  define x where "x = dval (dsub maxY y) - dval (dlit 1 10)"
  have "\<bar>dval (dsub (dsub maxY y) (dlit 1 10)) - x\<bar> \<le> \<bar>x\<bar> / 2 ^ 53"
    unfolding x_def by (rule dsub_error)
  from rel_bounds(1)[OF this] have a: "x - \<bar>x\<bar> / 9007199254740992 \<le> dval (dsub (dsub maxY y) (dlit 1 10))" .
  from dlit_bounds(2)[of 10 1] have b: "dval (dlit 1 10) \<le> 101 / 1000" by simp
  from space_left(1)[OF assms(1)] b have "- 101 / 1000 \<le> x" by (simp add: x_def)
  with a have "- 11 / 100 \<le> dval (dsub (dsub maxY y) (dlit 1 10))" by linarith
  with natural_height_nonneg[of e] have "- 11 / 100 \<le> dval (element_height e y)"
    by (simp add: Table element_height_def height_cap_def dmin_dval)
  with gap_table[of r] Table show ?thesis by simp
qed

lemma cursor_advances:
  assumes "0 \<le> dval y" and "dval y < 5" and "1 / 20 \<le> dval h + dval g"
  shows "dval y < dval (dadd y (dadd h g))"
proof -
  define s where "s = dval (dadd h g)"
  define x where "x = dval h + dval g"
  define z where "z = dval y + s"
  have "\<bar>s - x\<bar> \<le> \<bar>x\<bar> / 2 ^ 53"
    unfolding s_def x_def by (rule dadd_error)
  from rel_bounds(1)[OF this] assms(3) x_def have s: "1 / 25 \<le> s" by linarith
  have "\<bar>dval (dadd y (dadd h g)) - z\<bar> \<le> \<bar>z\<bar> / 2 ^ 53"
    unfolding z_def s_def by (rule dadd_error)
  from rel_bounds(1)[OF this] assms(1,2) s z_def show ?thesis by linarith
qed

text \<open>The cursor after a code block stays above zero.\<close>

lemma cursor_code_nonneg:
  assumes "0 \<le> dval y" and "dval y < 5"
  shows "0 \<le> dval (dadd y (dadd (element_height (Code l c) y) (gap (Code l c))))"
proof -
  define h where "h = dval (element_height (Code l c) y)"
  define g where "g = dval (gap (Code l c))"
  define s where "s = dval (dadd (element_height (Code l c) y) (gap (Code l c)))"
  define c0 where "c0 = dval (dsub maxY y)"
  define d3 where "d3 = dval (dlit 3 10)"
  define c2 where "c2 = dval (dsub (dsub maxY y) (dlit 3 10))"
  have h: "h = min (dval (natural_height (Code l c))) c2"
    by (simp add: h_def c2_def element_height_def height_cap_def dmin_dval)
  have g: "249 / 1000 \<le> g" "g \<le> 251 / 1000"
    using gap_code[of l c] gap_bounds[of "Code l c"] by (simp_all add: g_def)
  have d3: "d3 \<le> 301 / 1000" using dlit_bounds(2)[of 10 3] by (simp add: d3_def)
  have c0: "5 - dval y - 1 / 1000000 \<le> c0" "c0 \<le> 6"
    using space_left_bounds[OF assms] by (simp_all add: c0_def)
  define x2 where "x2 = c0 - d3"
  have d3n: "0 \<le> d3" using dlit_nonneg[of 10 3] by (simp add: d3_def)
  have "\<bar>c2 - x2\<bar> \<le> \<bar>x2\<bar> / 2 ^ 53"
    unfolding c2_def c0_def d3_def x2_def by (rule dsub_error)
  from rel_bounds[OF this] c0 d3 d3n x2_def assms
  have c2: "4699 / 1000 - dval y - 1 / 100000 \<le> c2" "c2 \<le> 7"
    by linarith+
  have hl: "119 / 100 \<le> h \<or> 4699 / 1000 - dval y - 1 / 100000 \<le> h" and hu: "h \<le> 7"
    using natural_height_code[of l c] c2 by (auto simp: h min_def)
  define xs where "xs = h + g"
  have "\<bar>s - xs\<bar> \<le> \<bar>xs\<bar> / 2 ^ 53"
    unfolding s_def h_def g_def xs_def by (rule dadd_error)
  from rel_bounds(1)[OF this] have sl: "xs - \<bar>xs\<bar> / 9007199254740992 \<le> s" .
  have "0 \<le> dval y + s"
    using hl
  proof
    assume "119 / 100 \<le> h"
    with sl g assms(1) xs_def show ?thesis by linarith
  next
    assume "4699 / 1000 - dval y - 1 / 100000 \<le> h"
    with sl g hu assms xs_def show ?thesis by linarith
  qed
  moreover have "\<bar>dval (dadd y (dadd (element_height (Code l c) y) (gap (Code l c)))) - (dval y + s)\<bar>
        \<le> \<bar>dval y + s\<bar> / 2 ^ 53"
    unfolding s_def by (rule dadd_error)
  ultimately show ?thesis by (rule rel_nonneg[rotated])
qed

lemma flow_step:
  "table_has_rows e \<Longrightarrow>
   flow y (e # es) =
     (if dle maxY y then Inr []
      else if placeable e
        then placed \<lparr>p_element = e, p_y = y, p_h = element_height e y\<rparr> (flow (next_cursor e y) es)
        else flow y es)"
  by (cases e)
     (simp_all add: Let_def next_cursor_def element_height_def natural_height_def height_cap_def
        gap_def placeable_def table_has_rows_def)

lemma next_cursor_nonneg:
  assumes "dle (dlit 0 1) y" and "\<not> dle maxY y"
  shows "dle (dlit 0 1) (next_cursor e y)"
proof -
  from assms have y: "0 \<le> dval y" "dval y < 5"
    by (simp_all add: dle_dval dval_zero dval_maxY)
  show ?thesis
  proof (cases e)
    case (Code l c)
    with cursor_code_nonneg[OF y] show ?thesis
      by (simp add: dle_dval dval_zero next_cursor_def)
  next
    case (Bullets c)
    then have "is_Code e \<longrightarrow> 0 \<le> dval (element_height e y)" by (simp add: is_Code_def)
    from cursor_advances[OF y height_and_gap[OF y(2) this]] y(1) show ?thesis
      by (simp add: dle_dval dval_zero next_cursor_def)
  next
    case (Text c)
    then have "is_Code e \<longrightarrow> 0 \<le> dval (element_height e y)" by (simp add: is_Code_def)
    from cursor_advances[OF y height_and_gap[OF y(2) this]] y(1) show ?thesis
      by (simp add: dle_dval dval_zero next_cursor_def)
  next
    case (Table r)
    then have "is_Code e \<longrightarrow> 0 \<le> dval (element_height e y)" by (simp add: is_Code_def)
    from cursor_advances[OF y height_and_gap[OF y(2) this]] y(1) show ?thesis
      by (simp add: dle_dval dval_zero next_cursor_def)
  qed
qed

lemma next_cursor_greater:
  assumes "dle (dlit 0 1) y" and "\<not> dle maxY y"
    and "\<not> (is_Code e \<and> dlt (element_height e y) (dlit 0 1))"
  shows "dlt y (next_cursor e y)"
proof -
  from assms have y: "0 \<le> dval y" "dval y < 5"
    by (simp_all add: dle_dval dval_zero dval_maxY)
  from assms(3) have "is_Code e \<longrightarrow> 0 \<le> dval (element_height e y)"
    by (simp add: dlt_dval dval_zero not_less)
  from cursor_advances[OF y height_and_gap[OF y(2) this]] show ?thesis
    by (simp add: dlt_dval next_cursor_def)
qed

lemma flow_outcome_exists:
  "list_all table_has_rows els \<Longrightarrow> \<exists>ps k. flow_outcome y els ps k"
proof (induction els arbitrary: y)
  case Nil
  show ?case by (rule exI[of _ "[]"], rule exI[of _ 0]) (simp add: flow_outcome_def)
next
  case (Cons e es)
  from Cons.prems have wf: "list_all table_has_rows es" and we: "table_has_rows e" by simp_all
  note st = flow_step[OF we, of y es]
  show ?case
  proof (cases "dle maxY y")
    case True
    then have "flow_outcome y (e # es) [] 0"
      by (simp add: flow_outcome_def st end_cursor_def)
    then show ?thesis by blast
  next
    case False
    show ?thesis
    proof (cases "placeable e")
      case np: False
      obtain ps k where r: "flow_outcome y es ps k"
        using Cons.IH[OF wf] by blast
      have "flow_outcome y (e # es) ps (Suc k)"
        using r False np by (simp add: flow_outcome_def st)
      then show ?thesis by blast
    next
      case True
      define p where "p = \<lparr>p_element = e, p_y = y, p_h = element_height e y\<rparr>"
      obtain ps k where r: "flow_outcome (next_cursor e y) es ps k"
        using Cons.IH[OF wf] by blast
      have ca: "cursor_after p = next_cursor e y"
        by (simp add: p_def cursor_after_def next_cursor_def)
      have f: "flow y (e # es) = Inr (p # ps)"
        using r False True by (simp add: st flow_outcome_def placed_def p_def)
      have el: "map p_element (p # ps) = filter placeable (take (Suc k) (e # es))"
        using r True by (simp add: flow_outcome_def p_def)
      have ch: "chained y (p # ps)"
        using r by (simp add: flow_outcome_def ca) (simp add: p_def)
      have la: "list_all (\<lambda>p. dlt (p_y p) maxY \<and> p_h p = element_height (p_element p) (p_y p)) (p # ps)"
        using r False by (simp add: flow_outcome_def p_def dlt_dval dle_dval not_le)
      have ec: "end_cursor y (p # ps) = end_cursor (next_cursor e y) ps"
        using ca by (simp add: end_cursor_def cursor_after_def)
      have en: "if Suc k < length (e # es) then dle maxY (end_cursor y (p # ps)) else True"
        using r by (simp add: flow_outcome_def ec)
      have asc: "if dle (dlit 0 1) y then ascending (p # ps) else True"
      proof (cases "dle (dlit 0 1) y")
        case z: True
        from next_cursor_nonneg[OF z False] r have a: "ascending ps"
          by (simp add: flow_outcome_def)
        have "ascending (p # ps)"
        proof (cases ps)
          case Nil
          then show ?thesis by simp
        next
          case (Cons q qs)
          with r have q: "p_y q = next_cursor e y" by (simp add: flow_outcome_def)
          have "shrunk p \<or> dlt (p_y p) (p_y q)"
          proof (cases "shrunk p")
            case True
            then show ?thesis ..
          next
            case ns: False
            then have "\<not> (is_Code e \<and> dlt (element_height e y) (dlit 0 1))"
              by (simp add: shrunk_def p_def)
            from next_cursor_greater[OF z False this] show ?thesis
              by (simp add: q) (simp add: p_def)
          qed
          with a Cons show ?thesis by simp
        qed
        with z show ?thesis by simp
      next
        case False
        then show ?thesis by simp
      qed
      have "flow_outcome y (e # es) (p # ps) (Suc k)"
        unfolding flow_outcome_def using r
        by (intro conjI f el ch la en asc) (simp add: flow_outcome_def)
      then show ?thesis by blast
    qed
  qed
qed




text \<open>
  The \<open>y\<close> of the placements need not increase.  The height of a code block is capped by
  the space left less 0.3 and may be negative; after a code block placed above 4.95 the
  cursor goes back.  Here the code block is placed at about 4.98 and the text after it at
  about 4.95.
\<close>

lemma flow_cursor_goes_back:
  "map_sum id (map (\<lambda>p. (dle (dlit 497 100) (p_y p), dle (p_y p) (dlit 496 100))))
     (flow (dlit 9 10)
        [Code (js ''js'') (js ''1\<newline>2\<newline>3\<newline>4\<newline>5\<newline>6''),
         Bullets (js ''- a''),
         Table [\<lparr>cells = [js ''a''], isHeader = True\<rparr>],
         Table [\<lparr>cells = [js ''a''], isHeader = True\<rparr>, \<lparr>cells = [js ''b''], isHeader = False\<rparr>],
         Code (js ''js'') (js ''x''),
         Text (js ''t'')])
   = Inr [(False, True), (False, True), (False, True), (False, True), (True, False), (False, True)]"
  by code_simp

section \<open>Properties of the fenced code\<close>

lemma join_char_snoc: "join_char d (xs @ [y]) = concat (map (\<lambda>l. l @ [d]) xs) @ y"
  by (induction xs rule: join_char.induct) simp_all


















lemma filter_takeWhile_none:
  "\<forall>l \<in> set ls. Q l \<longrightarrow> \<not> P l \<Longrightarrow> filter Q (takeWhile P ls) = []"
  by (induction ls) auto




lemma flush_both_codes: "filter is_Code (flush_both st) = filter is_Code (elements st)"
  by (simp add: flush_both_def flush_text_def flush_bullets_def is_Code_def)

































































section \<open>The content slide raises no error\<close>

text \<open>Every table that the parser emits has a row, so the flow of a parsed body never
  reaches the TypeError.\<close>

lemma extract_tables_rows:
  "\<forall>t \<in> set T. tb_rows t \<noteq> [] \<Longrightarrow>
   \<forall>t \<in> set (fst (extract_tables ls T N)). tb_rows t \<noteq> []"
proof (induction ls T N rule: extract_tables.induct)
  case (1 tables newLines)
  then show ?case by simp
next
  case (2 line rest tables newLines)
  show ?case
  proof (cases "pipe_delimited line")
    case False
    from "2.IH"(3)[OF False "2.prems"] False show ?thesis by simp
  next
    case True
    let ?tl = "takeWhile pipe_start (line # rest)"
    let ?rest = "dropWhile pipe_start (line # rest)"
    show ?thesis
    proof (cases "2 \<le> length ?tl \<and> table_rows True ?tl \<noteq> []")
      case yes: True
      have y': "(2 \<le> length ?tl \<and> table_rows True ?tl \<noteq> []) = True" using yes by simp
      have eq: "extract_tables (line # rest) tables newLines
          = extract_tables ?rest
              (tables @ [\<lparr>tb_placeholder = table_placeholder (length tables),
                             tb_rows = table_rows True ?tl\<rparr>])
              (newLines @ [table_placeholder (length tables)])"
        by (simp only: extract_tables.simps Let_def True y' if_True)
      have "\<forall>t \<in> set (tables @ [\<lparr>tb_placeholder = table_placeholder (length tables),
                             tb_rows = table_rows True ?tl\<rparr>]). tb_rows t \<noteq> []"
        using "2.prems" yes by auto
      from "2.IH"(1)[OF True refl refl refl yes this]
      show ?thesis unfolding eq .
    next
      case no: False
      have n': "(2 \<le> length ?tl \<and> table_rows True ?tl \<noteq> []) = False" using no by simp
      have eq: "extract_tables (line # rest) tables newLines = extract_tables ?rest tables newLines"
        by (simp only: extract_tables.simps Let_def True n' if_True if_False)
      from "2.IH"(2)[OF True refl refl refl no "2.prems"]
      show ?thesis unfolding eq .
    qed
  qed
qed

lemma flush_both_rows:
  "list_all table_has_rows (elements st) \<Longrightarrow> list_all table_has_rows (flush_both st)"
  by (simp add: flush_both_def flush_text_def flush_bullets_def table_has_rows_def)

lemma classify_line_rows:
  assumes "\<forall>t \<in> set tables. tb_rows t \<noteq> []" and "list_all table_has_rows (elements st)"
  shows "list_all table_has_rows (elements (classify_line codeBlocks tables st line))"
proof -
  have t: "\<And>t. find (\<lambda>t. tb_placeholder t = trim line) tables = Some t \<Longrightarrow> tb_rows t \<noteq> []"
    using assms(1) by (auto simp: find_Some_iff)
  show ?thesis
    using assms(2) flush_both_rows[OF assms(2)] t
    by (auto simp: classify_line_def flush_text_def flush_bullets_def table_has_rows_def
          split: option.splits)
qed

lemma classify_fold_rows:
  "\<forall>t \<in> set tables. tb_rows t \<noteq> [] \<Longrightarrow> list_all table_has_rows (elements st) \<Longrightarrow>
   list_all table_has_rows (elements (foldl (classify_line codeBlocks tables) st lines))"
  by (induction lines arbitrary: st) (simp_all add: classify_line_rows)

lemma parseContentElements_rows: "list_all table_has_rows (parseContentElements content)"
proof -
  obtain codeBlocks workingContent
    where ec: "extract_code (code_scan content) 0 [] content = (codeBlocks, workingContent)"
    by (cases "extract_code (code_scan content) 0 [] content")
  obtain tables newLines
    where et: "extract_tables (split_char 10 workingContent) [] [] = (tables, newLines)"
    by (cases "extract_tables (split_char 10 workingContent) [] []")
  have "\<forall>t \<in> set tables. tb_rows t \<noteq> []"
    using extract_tables_rows[of "[]" "split_char 10 workingContent" "[]"] by (simp add: et)
  then have "list_all table_has_rows
      (flush_both (foldl (classify_line codeBlocks tables)
         \<lparr>elements = [], currentBulletBlock = [], currentTextBlock = []\<rparr>
         (split_char 10 (join_char 10 newLines))))"
    by (intro flush_both_rows classify_fold_rows) simp_all
  then show ?thesis
    by (simp add: parseContentElements_def ec et classify_lines_def)
qed

text \<open>So \<open>addContentSlide\<close> raises no error on any slide body.\<close>

lemma addContentSlide_total: "\<exists>sl. addContentSlide title content = Inr sl"
proof -
  obtain ps k where "flow_outcome (dlit 9 10) (parseContentElements content) ps k"
    using flow_outcome_exists[OF parseContentElements_rows] by blast
  then have "flow (dlit 9 10) (parseContentElements content) = Inr ps"
    by (simp add: flow_outcome_def)
  then show ?thesis by (simp add: addContentSlide_def)
qed

end
